theory Spec2Isabelle
  imports Main "HOL-Library.AList"
begin

section \<open>Text primitives of the host language\<close>

text \<open>
  Python strings are modelled as \<open>string\<close>; a character stands for a code point in
  the range 0..255. The three string methods the analyser uses are written out:
  \<open>str.lower\<close>, \<open>str.replace\<close>, \<open>str.split\<close> (with a separator) and \<open>str.join\<close>.
\<close>

definition backslash :: char where
  "backslash = CHR 0x5C"

definition newline :: char where
  "newline = CHR 0x0A"

text \<open>Lower and upper case of a character: the letters of ASCII and of Latin-1. The two
  cases of a letter differ by 32, that is by the sixth bit.\<close>

definition set_bit5 :: "bool \<Rightarrow> char \<Rightarrow> char" where
  "set_bit5 b c = (case c of Char b0 b1 b2 b3 b4 b5 b6 b7 \<Rightarrow> Char b0 b1 b2 b3 b4 b b6 b7)"

definition lower_char :: "char \<Rightarrow> char" where
  "lower_char c =
     (let n = (of_char c :: nat)
      in if (65 \<le> n \<and> n \<le> 90) \<or> (192 \<le> n \<and> n \<le> 222 \<and> n \<noteq> 215)
         then set_bit5 True c else c)"

definition upper_char :: "char \<Rightarrow> char" where
  "upper_char c =
     (let n = (of_char c :: nat)
      in if (97 \<le> n \<and> n \<le> 122) \<or> (224 \<le> n \<and> n \<le> 254 \<and> n \<noteq> 247)
         then set_bit5 False c else c)"

definition lower :: "string \<Rightarrow> string" where
  "lower s = map lower_char s"

fun is_prefix :: "string \<Rightarrow> string \<Rightarrow> bool" where
  "is_prefix [] s = True"
| "is_prefix (p # ps) [] = False"
| "is_prefix (p # ps) (c # cs) = (p = c \<and> is_prefix ps cs)"

text \<open>\<open>s.replace(old, new)\<close> for a non-empty \<open>old\<close>: occurrences are replaced from the
  left, without overlap. (For an empty \<open>old\<close> Python inserts \<open>new\<close> around every character.)\<close>

function str_replace :: "string \<Rightarrow> string \<Rightarrow> string \<Rightarrow> string" where
  "str_replace old new s =
     (if old = [] then new @ concat (map (\<lambda>c. c # new) s)
      else if s = [] then []
      else if is_prefix old s then new @ str_replace old new (drop (length old) s)
      else hd s # str_replace old new (tl s))"
  by pat_completeness auto
termination
  by (relation "measure (\<lambda>(old, new, s). length s)") auto

text \<open>\<open>s.split(sep)\<close> for a non-empty separator; \<open>acc\<close> holds the current piece,
  reversed. The result always has at least one piece.\<close>

function split_acc :: "string \<Rightarrow> string \<Rightarrow> string \<Rightarrow> string list" where
  "split_acc sep acc s =
     (if s = [] then [rev acc]
      else if sep \<noteq> [] \<and> is_prefix sep s then rev acc # split_acc sep [] (drop (length sep) s)
      else split_acc sep (hd s # acc) (tl s))"
  by pat_completeness auto
termination
  by (relation "measure (\<lambda>(sep, acc, s). length s)") auto

definition str_split :: "string \<Rightarrow> string \<Rightarrow> string list" where
  "str_split sep s = split_acc sep [] s"

fun str_join :: "string \<Rightarrow> string list \<Rightarrow> string" where
  "str_join sep [] = []"
| "str_join sep [x] = x"
| "str_join sep (x # y # ys) = x @ sep @ str_join sep (y # ys)"

section \<open>The regular-expression library\<close>

text \<open>
  \<open>re.compile\<close>, \<open>Pattern.search\<close> and \<open>Pattern.match\<close> belong to the standard library,
  not to the analyser. They are modelled for a fragment of the pattern syntax: literal
  characters, escaped punctuation, \<open>.\<close>, \<open>^\<close>, \<open>$\<close>, character sets with ranges and
  negation, capturing groups and \<open>(?:...)\<close>, alternation, and the repeats \<open>*\<close>, \<open>+\<close>,
  \<open>?\<close> with their lazy forms. The parser answers \<open>Unsupported\<close> for anything else
  (escapes of letters and digits, \<open>{\<close>, possessive repeats and the other \<open>(?\<close>
  extensions), so that the model never invents a verdict for syntax it does not cover.
\<close>

datatype at_code = AT_BEGINNING | AT_END

datatype set_item = SLiteral char | SRange char char

datatype repeat_kind = Opt | Star | Plus

datatype regex =
    Empty
  | Literal char
  | Any
  | In bool "set_item list"
  | At at_code
  | Subpattern "nat option" regex
  | Branch regex regex
  | Cat regex regex
  | Repeat bool repeat_kind regex

record flags =
  ignorecase :: bool
  dotall :: bool

subsection \<open>Matching\<close>

definition char_eq :: "bool \<Rightarrow> char \<Rightarrow> char \<Rightarrow> bool" where
  "char_eq ic a x = (if ic then lower_char a = lower_char x else a = x)"

definition in_range :: "char \<Rightarrow> char \<Rightarrow> char \<Rightarrow> bool" where
  "in_range lo hi x = ((of_char lo :: nat) \<le> of_char x \<and> (of_char x :: nat) \<le> of_char hi)"

text \<open>Without regard to case, a character is in a set when one of the characters that
  differ from it by case only is: itself, its lower case or its upper case.\<close>

fun item_matches :: "bool \<Rightarrow> char \<Rightarrow> set_item \<Rightarrow> bool" where
  "item_matches ic x (SLiteral a) = char_eq ic a x"
| "item_matches ic x (SRange lo hi) =
     (if ic then in_range lo hi x \<or> in_range lo hi (lower_char x) \<or> in_range lo hi (upper_char x)
      else in_range lo hi x)"

definition in_set :: "bool \<Rightarrow> set_item list \<Rightarrow> char \<Rightarrow> bool" where
  "in_set ic items x = list_ex (item_matches ic x) items"

type_synonym caps = "string option list"

definition set_group :: "nat option \<Rightarrow> string \<Rightarrow> caps \<Rightarrow> caps" where
  "set_group g txt c = (case g of None \<Rightarrow> c | Some i \<Rightarrow> c[i := Some txt])"

primrec rsize :: "regex \<Rightarrow> nat" where
  "rsize Empty = 1"
| "rsize (Literal a) = 1"
| "rsize Any = 1"
| "rsize (In neg items) = 1"
| "rsize (At a) = 1"
| "rsize (Subpattern g r) = Suc (rsize r)"
| "rsize (Branch r1 r2) = Suc (rsize r1 + rsize r2)"
| "rsize (Cat r1 r2) = Suc (rsize r1 + rsize r2)"
| "rsize (Repeat greedy k r) = (case k of Plus \<Rightarrow> rsize r + 2 | _ \<Rightarrow> rsize r + 1)"

text \<open>
  \<open>run f n r w c\<close> lists, in the order in which the backtracking matcher tries them, the
  ways in which \<open>r\<close> can match a prefix of the remaining text \<open>w\<close>: what is left of the
  text and the groups captured so far. \<open>n\<close> is the length of the whole subject, so that
  \<open>length w = n\<close> holds at its beginning. An iteration of a repeat that consumes nothing
  ends the repetition (the matcher's protection against empty loops).
\<close>

function run :: "flags \<Rightarrow> nat \<Rightarrow> regex \<Rightarrow> string \<Rightarrow> caps \<Rightarrow> (string \<times> caps) list" where
  "run f n Empty w c = [(w, c)]"
| "run f n (Literal a) w c =
     (case w of [] \<Rightarrow> [] | x # w' \<Rightarrow> if char_eq (ignorecase f) a x then [(w', c)] else [])"
| "run f n Any w c =
     (case w of [] \<Rightarrow> [] | x # w' \<Rightarrow> if dotall f \<or> x \<noteq> newline then [(w', c)] else [])"
| "run f n (In neg items) w c =
     (case w of [] \<Rightarrow> []
      | x # w' \<Rightarrow> if in_set (ignorecase f) items x \<noteq> neg then [(w', c)] else [])"
| "run f n (At a) w c =
     (case a of
        AT_BEGINNING \<Rightarrow> if length w = n then [(w, c)] else []
      | AT_END \<Rightarrow> if w = [] \<or> w = [newline] then [(w, c)] else [])"
| "run f n (Subpattern g r) w c =
     map (\<lambda>x. (fst x, set_group g (take (length w - length (fst x)) w) (snd x))) (run f n r w c)"
| "run f n (Branch r1 r2) w c = run f n r1 w c @ run f n r2 w c"
| "run f n (Cat r1 r2) w c = concat (map (\<lambda>x. run f n r2 (fst x) (snd x)) (run f n r1 w c))"
| "run f n (Repeat greedy Opt r) w c =
     (if greedy then run f n r w c @ [(w, c)] else (w, c) # run f n r w c)"
| "run f n (Repeat greedy Plus r) w c =
     concat (map (\<lambda>x. run f n (Repeat greedy Star r) (fst x) (snd x)) (run f n r w c))"
| "run f n (Repeat greedy Star r) w c =
     (let more = concat (map (\<lambda>x. if length (fst x) < length w
                                    then run f n (Repeat greedy Star r) (fst x) (snd x)
                                    else [x])
                             (run f n r w c))
      in if greedy then more @ [(w, c)] else (w, c) # more)"
  by pat_completeness auto
termination
  by (relation "inv_image (less_than <*lex*> less_than) (\<lambda>(f, n, r, w, c). (rsize r, length w))")
     auto

record compiled =
  re_flags :: flags
  re_prog :: regex
  re_groups :: nat

text \<open>A match object is modelled by what \<open>groups()\<close> returns: one entry per capturing
  group, \<open>None\<close> for a group that took no part in the match.\<close>

definition re_match :: "compiled \<Rightarrow> string \<Rightarrow> caps option" where
  "re_match p s =
     (case run (re_flags p) (length s) (re_prog p) s (replicate (re_groups p) None) of
        [] \<Rightarrow> None
      | x # _ \<Rightarrow> Some (snd x))"

fun search_from :: "compiled \<Rightarrow> nat \<Rightarrow> string \<Rightarrow> caps option" where
  "search_from p n w =
     (case run (re_flags p) n (re_prog p) w (replicate (re_groups p) None) of
        x # _ \<Rightarrow> Some (snd x)
      | [] \<Rightarrow> (case w of [] \<Rightarrow> None | _ # w' \<Rightarrow> search_from p n w'))"

definition re_search :: "compiled \<Rightarrow> string \<Rightarrow> caps option" where
  "re_search p s = search_from p (length s) s"

subsection \<open>Parsing\<close>

text \<open>
  The pattern is first cut into tokens, a backslash taking the next character with it;
  a backslash at the end of the pattern is an error whatever precedes it.
\<close>

datatype token = Ch char | Esc char

fun tokenize :: "string \<Rightarrow> token list option" where
  "tokenize [] = Some []"
| "tokenize (c # cs) =
     (if c = backslash
      then (case cs of [] \<Rightarrow> None | d # ds \<Rightarrow> map_option ((#) (Esc d)) (tokenize ds))
      else map_option ((#) (Ch c)) (tokenize cs))"

datatype 'a parse = Parsed 'a | ReError | Unsupported

fun seq :: "regex list \<Rightarrow> regex" where
  "seq [] = Empty"
| "seq [r] = r"
| "seq (r # rs) = Cat r (seq rs)"

fun alt :: "regex list \<Rightarrow> regex" where
  "alt [] = Empty"
| "alt [r] = r"
| "alt (r # rs) = Branch r (alt rs)"

definition is_alnum :: "char \<Rightarrow> bool" where
  "is_alnum c =
     (let n = (of_char c :: nat)
      in (48 \<le> n \<and> n \<le> 57) \<or> (65 \<le> n \<and> n \<le> 90) \<or> (97 \<le> n \<and> n \<le> 122))"

text \<open>The character a token stands for inside a set, \<open>None\<close> where the escape is one the
  model does not cover.\<close>

fun set_code :: "token \<Rightarrow> char option" where
  "set_code (Ch c) = Some c"
| "set_code (Esc c) = (if is_alnum c then None else Some c)"

definition repeat_of :: "char \<Rightarrow> repeat_kind" where
  "repeat_of c = (if c = CHR ''?'' then Opt else if c = CHR ''*'' then Star else Plus)"

fun unwrap :: "regex \<Rightarrow> regex" where
  "unwrap (Subpattern None p) = p"
| "unwrap r = r"

fun repeatable :: "regex list \<Rightarrow> bool" where
  "repeatable [] = False"
| "repeatable (r # r' # rs) = repeatable (r' # rs)"
| "repeatable [At a] = False"
| "repeatable [Repeat g k r] = False"
| "repeatable [r] = True"

text \<open>
  The parser state: for each group that is open, its number and what had been read of
  the enclosing alternation (\<open>ps_stack\<close>); the finished alternatives of the current group
  (\<open>ps_alts\<close>) and the items of the current one (\<open>ps_items\<close>); the number of capturing
  groups opened so far (group \<open>k\<close> is stored at index \<open>k - 1\<close>); and, while the inside of a
  character set is being read, its negation flag and the members read so far.
\<close>

record pframe =
  fr_group :: "nat option"
  fr_alts :: "regex list"
  fr_items :: "regex list"

record pstate =
  ps_stack :: "pframe list"
  ps_alts :: "regex list"
  ps_items :: "regex list"
  ps_groups :: nat
  ps_set :: "(bool \<times> set_item list) option"

definition add_item :: "regex \<Rightarrow> pstate \<Rightarrow> pstate" where
  "add_item r st = st\<lparr>ps_items := ps_items st @ [r]\<rparr>"

definition open_group :: "nat option \<Rightarrow> pstate \<Rightarrow> pstate" where
  "open_group g st =
     st\<lparr>ps_stack := \<lparr>fr_group = g, fr_alts = ps_alts st, fr_items = ps_items st\<rparr> # ps_stack st,
        ps_alts := [], ps_items := [],
        ps_groups := (case g of None \<Rightarrow> ps_groups st | Some _ \<Rightarrow> Suc (ps_groups st))\<rparr>"

definition make_repeat :: "bool \<Rightarrow> char \<Rightarrow> pstate \<Rightarrow> pstate" where
  "make_repeat greedy c st =
     st\<lparr>ps_items := butlast (ps_items st)
                      @ [Repeat greedy (repeat_of c) (unwrap (last (ps_items st)))]\<rparr>"

text \<open>One step outside a character set: it reads one item, or one bracket or bar. The
  token \<open>c\<close> is consumed; the step looks at the tokens \<open>ts\<close> that follow and returns how
  many of them it consumes as well.\<close>

definition step_main :: "char \<Rightarrow> token list \<Rightarrow> pstate \<Rightarrow> (nat \<times> pstate) parse" where
  "step_main c ts st =
     (if c = CHR ''|'' then
        Parsed (0, st\<lparr>ps_alts := ps_alts st @ [seq (ps_items st)], ps_items := []\<rparr>)
      else if c = CHR '')'' then
        (case ps_stack st of
           [] \<Rightarrow> ReError
         | fr # stack' \<Rightarrow>
             Parsed (0, st\<lparr>ps_stack := stack', ps_alts := fr_alts fr,
                             ps_items := fr_items fr
                               @ [Subpattern (fr_group fr)
                                    (alt (ps_alts st @ [seq (ps_items st)]))]\<rparr>))
      else if c = CHR ''('' then
        (case ts of
           Ch q # ts' \<Rightarrow>
             if q = CHR ''?'' then
               (case ts' of
                  [] \<Rightarrow> ReError
                | Ch k # ts'' \<Rightarrow>
                    if k = CHR '':'' then Parsed (2, open_group None st) else Unsupported
                | Esc k # ts'' \<Rightarrow> Unsupported)
             else Parsed (0, open_group (Some (ps_groups st)) st)
         | _ \<Rightarrow> Parsed (0, open_group (Some (ps_groups st)) st))
      else if c = CHR ''['' then
        (case ts of
           Ch q # ts' \<Rightarrow>
             if q = CHR ''^'' then Parsed (1, st\<lparr>ps_set := Some (True, [])\<rparr>)
             else Parsed (0, st\<lparr>ps_set := Some (False, [])\<rparr>)
         | _ \<Rightarrow> Parsed (0, st\<lparr>ps_set := Some (False, [])\<rparr>))
      else if c = CHR ''?'' \<or> c = CHR ''*'' \<or> c = CHR ''+'' then
        (if \<not> repeatable (ps_items st) then ReError
         else (case ts of
                 Ch q # ts' \<Rightarrow>
                   if q = CHR ''?'' then Parsed (1, make_repeat False c st)
                   else if q = CHR ''+'' then Unsupported
                   else Parsed (0, make_repeat True c st)
               | _ \<Rightarrow> Parsed (0, make_repeat True c st)))
      else if c = CHR ''{'' then Unsupported
      else if c = CHR ''.'' then Parsed (0, add_item Any st)
      else if c = CHR ''^'' then Parsed (0, add_item (At AT_BEGINNING) st)
      else if c = CHR ''$'' then Parsed (0, add_item (At AT_END) st)
      else Parsed (0, add_item (Literal c) st))"

text \<open>One step inside a character set: a closing bracket, a range or a single member.\<close>

definition step_set :: "bool \<Rightarrow> set_item list \<Rightarrow> token \<Rightarrow> token list \<Rightarrow> pstate
                          \<Rightarrow> (nat \<times> pstate) parse" where
  "step_set neg members t ts st =
     (if t = Ch CHR '']'' \<and> members \<noteq> [] then
        Parsed (0, add_item (In neg members) (st\<lparr>ps_set := None\<rparr>))
      else
        (case set_code t of
           None \<Rightarrow> Unsupported
         | Some lo \<Rightarrow>
             (case ts of
                Ch d # ts' \<Rightarrow>
                  if d = CHR ''-'' then
                    (case ts' of
                       [] \<Rightarrow> ReError
                     | t2 # ts'' \<Rightarrow>
                         if t2 = Ch CHR '']'' then
                           Parsed (2, add_item (In neg (members @ [SLiteral lo, SLiteral CHR ''-'']))
                                           (st\<lparr>ps_set := None\<rparr>))
                         else
                           (case set_code t2 of
                              None \<Rightarrow> Unsupported
                            | Some hi \<Rightarrow>
                                if (of_char hi :: nat) < of_char lo then ReError
                                else Parsed (2, st\<lparr>ps_set := Some (neg, members @ [SRange lo hi])\<rparr>)))
                  else Parsed (0, st\<lparr>ps_set := Some (neg, members @ [SLiteral lo])\<rparr>)
              | _ \<Rightarrow> Parsed (0, st\<lparr>ps_set := Some (neg, members @ [SLiteral lo])\<rparr>))))"

definition step :: "token \<Rightarrow> token list \<Rightarrow> pstate \<Rightarrow> (nat \<times> pstate) parse" where
  "step t ts st =
     (case ps_set st of
        Some (neg, members) \<Rightarrow> step_set neg members t ts st
      | None \<Rightarrow>
          (case t of
             Esc c \<Rightarrow> if is_alnum c then Unsupported else Parsed (0, add_item (Literal c) st)
           | Ch c \<Rightarrow> step_main c ts st))"

text \<open>At the end of the pattern an open set or an open group is an error.\<close>

definition finish :: "pstate \<Rightarrow> (regex \<times> nat) parse" where
  "finish st =
     (if ps_set st \<noteq> None \<or> ps_stack st \<noteq> [] then ReError
      else Parsed (alt (ps_alts st @ [seq (ps_items st)]), ps_groups st))"

function parse_loop :: "token list \<Rightarrow> pstate \<Rightarrow> (regex \<times> nat) parse" where
  "parse_loop [] st = finish st"
| "parse_loop (t # ts) st =
     (case step t ts st of
        Parsed (k, st') \<Rightarrow> parse_loop (drop k ts) st'
      | ReError \<Rightarrow> ReError
      | Unsupported \<Rightarrow> Unsupported)"
  by pat_completeness auto
termination
  by (relation "measure (\<lambda>(ts, st). length ts)") auto

definition sre_parse :: "string \<Rightarrow> (regex \<times> nat) parse" where
  "sre_parse s =
     (case tokenize s of
        None \<Rightarrow> ReError
      | Some ts \<Rightarrow>
          parse_loop ts \<lparr>ps_stack = [], ps_alts = [], ps_items = [], ps_groups = 0, ps_set = None\<rparr>)"

definition re_compile :: "string \<Rightarrow> flags \<Rightarrow> compiled parse" where
  "re_compile s f =
     (case sre_parse s of
        Parsed (r, g) \<Rightarrow> Parsed \<lparr>re_flags = f, re_prog = r, re_groups = g\<rparr>
      | ReError \<Rightarrow> ReError
      | Unsupported \<Rightarrow> Unsupported)"

section \<open>The analyser\<close>

subsection \<open>Exceptions\<close>

text \<open>
  Every exception the analyser can raise is a value. \<open>FetchError\<close> stands for whatever
  the HTTP client raises. \<open>Unmodelled\<close> is not an exception of the program: it marks a
  run that met a pattern outside the fragment of the pattern syntax covered above.
\<close>

datatype error = TypeError | AttributeError | KeyError | RegexError | FetchError | Unmodelled

definition bind_err :: "error + 'a \<Rightarrow> ('a \<Rightarrow> error + 'b) \<Rightarrow> error + 'b" where
  "bind_err m k = (case m of Inl e \<Rightarrow> Inl e | Inr x \<Rightarrow> k x)"

fun for_each :: "('a \<Rightarrow> 's \<Rightarrow> error + 's) \<Rightarrow> 'a list \<Rightarrow> 's \<Rightarrow> error + 's" where
  "for_each body [] s = Inr s"
| "for_each body (x # xs) s =
     (case body x s of Inl e \<Rightarrow> Inl e | Inr s' \<Rightarrow> for_each body xs s')"

subsection \<open>\<open>as_list\<close> and \<open>compile_regex\<close>\<close>

text \<open>The values of the rule file, as \<open>json.loads\<close> returns them.\<close>

datatype json =
    JNull
  | JBool bool
  | JNumber int
  | JString string
  | JArray "json list"
  | JObject "(string \<times> json) list"

fun as_list :: "json \<Rightarrow> json list" where
  "as_list (JArray xs) = xs"
| "as_list v = [v]"

text \<open>
  \<open>compile_regex\<close> rewrites \<open>[^]\<close>, compiles with \<open>DOTALL\<close> (and \<open>IGNORECASE\<close> unless told
  otherwise) and, when the library raises, compiles \<open>^$\<close> instead. The diagnostic it
  prints is not modelled.
\<close>

definition compile_regex :: "string \<Rightarrow> bool \<Rightarrow> error + compiled" where
  "compile_regex regex_string ic =
     (let flags = \<lparr>ignorecase = ic, dotall = True\<rparr>
      in case re_compile (str_replace ''[^]'' ''.'' regex_string) flags of
           Parsed r \<Rightarrow> Inr r
         | Unsupported \<Rightarrow> Inl Unmodelled
         | ReError \<Rightarrow>
             (case re_compile ''^$'' flags of
                Parsed r \<Rightarrow> Inr r
              | ReError \<Rightarrow> Inl RegexError
              | Unsupported \<Rightarrow> Inl Unmodelled))"

subsection \<open>\<open>parse_patterns\<close>\<close>

text \<open>
  A compiled pattern is the dictionary \<open>attrs\<close> of the source: \<open>string\<close> holds the regex
  text, \<open>regex\<close> the compiled matcher, and every \<open>key:value\<close> segment adds an entry (it
  may overwrite the two). \<open>parse_patterns\<close> returns a list or a dictionary of lists.
\<close>

datatype attr = AString string | ARegex compiled

type_synonym pattern = "string \<rightharpoonup> attr"

datatype parsed = PList "pattern list" | PDict "(string \<times> pattern list) list"

fun truthy :: "json \<Rightarrow> bool" where
  "truthy JNull = False"
| "truthy (JBool b) = b"
| "truthy (JNumber n) = (n \<noteq> 0)"
| "truthy (JString s) = (s \<noteq> [])"
| "truthy (JArray xs) = (xs \<noteq> [])"
| "truthy (JObject kvs) = (kvs \<noteq> [])"

fun parse_attrs :: "string list \<Rightarrow> pattern \<Rightarrow> pattern" where
  "parse_attrs [] attrs = attrs"
| "parse_attrs (seg # segs) attrs =
     (let attr = str_split '':'' seg
      in parse_attrs segs
           (if length attr > 1 then attrs(hd attr \<mapsto> AString (str_join '':'' (tl attr)))
            else attrs))"

definition parse_pattern :: "string \<Rightarrow> error + pattern" where
  "parse_pattern pattern =
     (case str_split (backslash # '';'') pattern of
        [] \<Rightarrow> Inr Map.empty
      | attr # segs \<Rightarrow>
          (case compile_regex attr True of
             Inl e \<Rightarrow> Inl e
           | Inr r \<Rightarrow>
               Inr (parse_attrs segs [''string'' \<mapsto> AString attr, ''regex'' \<mapsto> ARegex r])))"

text \<open>\<open>pattern.split\<close> exists only on strings.\<close>

fun parse_pattern_list :: "json list \<Rightarrow> error + pattern list" where
  "parse_pattern_list [] = Inr []"
| "parse_pattern_list (JString s # vs) =
     (case parse_pattern s of
        Inl e \<Rightarrow> Inl e
      | Inr p \<Rightarrow> (case parse_pattern_list vs of Inl e \<Rightarrow> Inl e | Inr ps \<Rightarrow> Inr (p # ps)))"
| "parse_pattern_list (v # vs) = Inl AttributeError"

fun parse_items :: "(string \<times> json) list \<Rightarrow> (string \<times> pattern list) list
                      \<Rightarrow> error + (string \<times> pattern list) list" where
  "parse_items [] parsed = Inr parsed"
| "parse_items ((key, pattern_value) # kvs) parsed =
     (case parse_pattern_list (as_list pattern_value) of
        Inl e \<Rightarrow> Inl e
      | Inr ps \<Rightarrow> parse_items kvs (AList.update key ps parsed))"

text \<open>\<open>patterns.items()\<close>: a string or a list has been wrapped under \<open>main\<close>; a number
  or \<open>true\<close> has no \<open>items\<close>.\<close>

fun pattern_items :: "json \<Rightarrow> error + (string \<times> json) list" where
  "pattern_items (JString s) = Inr [(''main'', JArray (as_list (JString s)))]"
| "pattern_items (JArray xs) = Inr [(''main'', JArray (as_list (JArray xs)))]"
| "pattern_items (JObject kvs) = Inr kvs"
| "pattern_items v = Inl AttributeError"

definition parse_patterns :: "json \<Rightarrow> error + parsed" where
  "parse_patterns patterns =
     (if \<not> truthy patterns then Inr (PList [])
      else
        (case pattern_items patterns of
           Inl e \<Rightarrow> Inl e
         | Inr kvs \<Rightarrow>
             (case parse_items kvs [] of
                Inl e \<Rightarrow> Inl e
              | Inr parsed \<Rightarrow>
                  Inr (case map_of parsed ''main'' of
                         Some ps \<Rightarrow> PList ps
                       | None \<Rightarrow> PDict parsed))))"

subsection \<open>Rules and \<open>iter_apps\<close>\<close>

text \<open>
  A rule after \<open>parse_app\<close>: its name, its \<open>implies\<close> list (a single string has been
  wrapped, an absent field has become the empty list) and its other fields, among them
  the pattern groups. \<open>iter_apps\<close> is a generator; the loop body that consumes it is
  passed as an argument, so that the patterns of a rule are parsed just before the body
  runs for that rule, as in the source.
\<close>

record app =
  name :: string
  implies :: "string list"
  props :: "(string \<times> json) list"

definition iter_apps :: "string \<Rightarrow> (app \<Rightarrow> parsed \<Rightarrow> 's \<Rightarrow> error + 's) \<Rightarrow> app list \<Rightarrow> 's
                           \<Rightarrow> error + 's" where
  "iter_apps key body apps s =
     for_each
       (\<lambda>app s. case map_of (props app) key of
                   None \<Rightarrow> Inr s
                 | Some v \<Rightarrow>
                     (case parse_patterns v of
                        Inl e \<Rightarrow> Inl e
                      | Inr patterns \<Rightarrow> body app patterns s))
       apps s"

subsection \<open>\<open>add_detected\<close>\<close>

text \<open>The state of a pass is \<open>__detected_apps\<close>, the list of display names.\<close>

definition display_name :: "app \<Rightarrow> pattern \<Rightarrow> string \<Rightarrow> error + string" where
  "display_name app pattern val =
     (if pattern ''version'' \<noteq> None then
        (case pattern ''regex'' of
           None \<Rightarrow> Inl KeyError
         | Some (AString s) \<Rightarrow> Inl AttributeError
         | Some (ARegex r) \<Rightarrow>
             (case re_match r val of
                Some (Some version # groups) \<Rightarrow> Inr (name app @ '' ('' @ version @ '')'')
              | _ \<Rightarrow> Inr (name app)))
      else Inr (name app))"

definition append_new :: "string \<Rightarrow> string list \<Rightarrow> string list" where
  "append_new x detected = (if x \<in> set detected then detected else detected @ [x])"

fun add_implies :: "string list \<Rightarrow> string list \<Rightarrow> string list" where
  "add_implies [] detected = detected"
| "add_implies (implie_app # rest) detected = add_implies rest (append_new implie_app detected)"

definition add_detected :: "app \<Rightarrow> pattern \<Rightarrow> string \<Rightarrow> string list \<Rightarrow> error + string list" where
  "add_detected app pattern val detected =
     (case display_name app pattern val of
        Inl e \<Rightarrow> Inl e
      | Inr app_name \<Rightarrow> Inr (add_implies (implies app) (append_new app_name detected)))"

subsection \<open>The signal analyses\<close>

text \<open>\<open>pattern['regex'].search(value)\<close>: the entry \<open>regex\<close> may have been overwritten by
  a string, which has no \<open>search\<close>.\<close>

definition pattern_search :: "pattern \<Rightarrow> string \<Rightarrow> error + bool" where
  "pattern_search pattern val =
     (case pattern ''regex'' of
        None \<Rightarrow> Inl KeyError
      | Some (AString s) \<Rightarrow> Inl AttributeError
      | Some (ARegex r) \<Rightarrow> Inr (re_search r val \<noteq> None))"

text \<open>The inner loop every analysis ends in:
  \<^verbatim>\<open>for pattern in patterns: if pattern['regex'].search(value): self.add_detected(...)\<close>.\<close>

fun test_patterns :: "app \<Rightarrow> pattern list \<Rightarrow> string \<Rightarrow> string list \<Rightarrow> error + string list" where
  "test_patterns app [] val detected = Inr detected"
| "test_patterns app (pattern # patterns) val detected =
     (case pattern_search pattern val of
        Inl e \<Rightarrow> Inl e
      | Inr hit \<Rightarrow>
          if hit then
            (case add_detected app pattern val detected of
               Inl e \<Rightarrow> Inl e
             | Inr detected' \<Rightarrow> test_patterns app patterns val detected')
          else test_patterns app patterns val detected)"

text \<open>\<open>url\<close>, \<open>html\<close> and \<open>script\<close> iterate over the group itself. Iterating over a
  dictionary yields its keys, and \<open>pattern['regex']\<close> on a key, a string, raises.\<close>

definition test_flat :: "app \<Rightarrow> parsed \<Rightarrow> string \<Rightarrow> string list \<Rightarrow> error + string list" where
  "test_flat app patterns val detected =
     (case patterns of
        PList ps \<Rightarrow> test_patterns app ps val detected
      | PDict kvs \<Rightarrow> if kvs = [] then Inr detected else Inl TypeError)"

definition analyze_url :: "app list \<Rightarrow> string \<Rightarrow> string list \<Rightarrow> error + string list" where
  "analyze_url apps url detected =
     iter_apps ''url'' (\<lambda>app patterns. test_flat app patterns url) apps detected"

definition analyze_html :: "app list \<Rightarrow> string \<Rightarrow> string list \<Rightarrow> error + string list" where
  "analyze_html apps html detected =
     iter_apps ''html'' (\<lambda>app patterns. test_flat app patterns html) apps detected"

definition script_rule :: "string list \<Rightarrow> app \<Rightarrow> parsed \<Rightarrow> string list \<Rightarrow> error + string list" where
  "script_rule scripts app patterns detected = for_each (test_flat app patterns) scripts detected"

definition analyze_scripts :: "app list \<Rightarrow> string list \<Rightarrow> string list \<Rightarrow> error + string list" where
  "analyze_scripts apps scripts detected = iter_apps ''script'' (script_rule scripts) apps detected"

text \<open>The keyed kinds call \<open>items()\<close> or \<open>keys()\<close> on the group; a list has neither.\<close>

definition keyed_items :: "parsed \<Rightarrow> error + (string \<times> pattern list) list" where
  "keyed_items patterns =
     (case patterns of PList ps \<Rightarrow> Inl AttributeError | PDict kvs \<Rightarrow> Inr kvs)"

text \<open>
  Cookies and headers are the containers of the HTTP client; only their lookup is used
  (that of the headers ignores case, which is the container's business). The two
  analyses have the same body: for every entry of the group whose key is in the
  container, the patterns are tested on the value stored under that key.
\<close>

definition test_keyed :: "(string \<rightharpoonup> string) \<Rightarrow> app \<Rightarrow> string \<times> pattern list \<Rightarrow> string list
                            \<Rightarrow> error + string list" where
  "test_keyed container app entry detected =
     (case container (fst entry) of
        None \<Rightarrow> Inr detected
      | Some v \<Rightarrow> test_patterns app (snd entry) v detected)"

definition keyed_rule :: "(string \<rightharpoonup> string) \<Rightarrow> app \<Rightarrow> parsed \<Rightarrow> string list
                            \<Rightarrow> error + string list" where
  "keyed_rule container app patterns detected =
     (case keyed_items patterns of
        Inl e \<Rightarrow> Inl e
      | Inr kvs \<Rightarrow> for_each (test_keyed container app) kvs detected)"

definition analyze_cookies :: "app list \<Rightarrow> (string \<rightharpoonup> string) \<Rightarrow> string list
                                \<Rightarrow> error + string list" where
  "analyze_cookies apps cookies detected = iter_apps ''cookies'' (keyed_rule cookies) apps detected"

definition analyze_headers :: "app list \<Rightarrow> (string \<rightharpoonup> string) \<Rightarrow> string list
                                \<Rightarrow> error + string list" where
  "analyze_headers apps headers detected = iter_apps ''headers'' (keyed_rule headers) apps detected"

text \<open>An element of the parsed document is the dictionary of its attributes.
  \<open>meta_content\<close> is \<open>attrs.get('content')\<close>, which is \<open>None\<close> when the attribute is
  absent; \<open>search(None)\<close> raises \<open>TypeError\<close>.\<close>

type_synonym tag = "(string \<times> string) list"

definition test_meta_patterns :: "app \<Rightarrow> pattern list \<Rightarrow> string option \<Rightarrow> string list
                                    \<Rightarrow> error + string list" where
  "test_meta_patterns app patterns meta_content detected =
     (case meta_content of
        Some v \<Rightarrow> test_patterns app patterns v detected
      | None \<Rightarrow>
          (case patterns of
             [] \<Rightarrow> Inr detected
           | pattern # rest \<Rightarrow>
               (case pattern ''regex'' of
                  None \<Rightarrow> Inl KeyError
                | Some (AString s) \<Rightarrow> Inl AttributeError
                | Some (ARegex r) \<Rightarrow> Inl TypeError)))"

definition attr_get :: "tag \<Rightarrow> string \<Rightarrow> string \<Rightarrow> string" where
  "attr_get t key dflt = (case map_of t key of None \<Rightarrow> dflt | Some v \<Rightarrow> v)"

definition meta_entry :: "app \<Rightarrow> string \<Rightarrow> string \<Rightarrow> string option \<Rightarrow> string \<times> pattern list
                            \<Rightarrow> string list \<Rightarrow> error + string list" where
  "meta_entry app meta_name meta_property meta_content entry detected =
     (if fst entry = meta_name \<or> fst entry = meta_property
      then test_meta_patterns app (snd entry) meta_content detected
      else Inr detected)"

definition meta_tag_rule :: "app \<Rightarrow> parsed \<Rightarrow> tag \<Rightarrow> string list \<Rightarrow> error + string list" where
  "meta_tag_rule app meta_patterns meta_tag detected =
     (let meta_name = lower (attr_get meta_tag ''name'' []);
          meta_property = lower (attr_get meta_tag ''property'' []);
          meta_content = map_of meta_tag ''content''
      in if meta_name \<noteq> [] \<or> meta_property \<noteq> [] then
           (case keyed_items meta_patterns of
              Inl e \<Rightarrow> Inl e
            | Inr kvs \<Rightarrow>
                for_each (meta_entry app meta_name meta_property meta_content) kvs detected)
         else Inr detected)"

definition meta_rule :: "tag list \<Rightarrow> app \<Rightarrow> parsed \<Rightarrow> string list \<Rightarrow> error + string list" where
  "meta_rule meta_tags app meta_patterns detected =
     for_each (meta_tag_rule app meta_patterns) meta_tags detected"

definition analyze_meta :: "app list \<Rightarrow> tag list \<Rightarrow> string list \<Rightarrow> error + string list" where
  "analyze_meta apps meta_tags detected = iter_apps ''meta'' (meta_rule meta_tags) apps detected"

text \<open>The outside world of a pass: the HTTP client (\<open>request_url\<close> followed by \<open>.text\<close>,
  or the exception it raises) and \<open>urllib.parse.urljoin\<close>.\<close>

record world =
  fetch :: "string \<Rightarrow> error + string"
  urljoin :: "string \<Rightarrow> string \<Rightarrow> string"

text \<open>The guard of the \<open>js\<close> analysis: the sub-key is spliced into a regex as it is.\<close>

definition global_guard :: "string \<Rightarrow> string" where
  "global_guard pattern_name = ''(window|document)'' @ [backslash] @ ''.'' @ pattern_name @ '' *?=''"

definition js_entry :: "string \<Rightarrow> app \<Rightarrow> string \<times> pattern list \<Rightarrow> string list
                          \<Rightarrow> error + string list" where
  "js_entry js app entry detected =
     (case compile_regex (global_guard (fst entry)) False of
        Inl e \<Rightarrow> Inl e
      | Inr global_variable \<Rightarrow>
          if re_search global_variable js \<noteq> None
          then test_patterns app (snd entry) js detected
          else Inr detected)"

definition js_rule :: "string \<Rightarrow> app \<Rightarrow> parsed \<Rightarrow> string list \<Rightarrow> error + string list" where
  "js_rule js app patterns detected =
     (case keyed_items patterns of
        Inl e \<Rightarrow> Inl e
      | Inr kvs \<Rightarrow> for_each (js_entry js app) kvs detected)"

definition js_script :: "world \<Rightarrow> app list \<Rightarrow> string \<Rightarrow> string list \<Rightarrow> error + string list" where
  "js_script w apps script detected =
     (case fetch w script of
        Inl e \<Rightarrow> Inl e
      | Inr js \<Rightarrow> iter_apps ''js'' (js_rule js) apps detected)"

definition analyze_js :: "world \<Rightarrow> app list \<Rightarrow> string list \<Rightarrow> string list \<Rightarrow> error + string list" where
  "analyze_js w apps scripts detected = for_each (js_script w apps) scripts detected"

subsection \<open>The detection pass\<close>

text \<open>
  The response of the HTTP client, together with what \<open>BeautifulSoup\<close> makes of its text:
  whether there is an \<open>html\<close> element, and the \<open>script\<close> and \<open>meta\<close> elements in document
  order.
\<close>

record document =
  has_html :: bool
  script_tags :: "tag list"
  meta_elements :: "tag list"

record response =
  url :: string
  request_url :: string
  text_body :: string
  headers :: "string \<rightharpoonup> string"
  cookies :: "string \<rightharpoonup> string"
  soup :: document

definition is_html_document :: "document \<Rightarrow> bool" where
  "is_html_document html = has_html html"

definition get_scripts :: "document \<Rightarrow> string list" where
  "get_scripts html =
     filter (\<lambda>src. src \<noteq> [])
       (List.map_filter (\<lambda>s. map_of s ''src'') (script_tags html))"

definition get_meta_tags :: "document \<Rightarrow> tag list" where
  "get_meta_tags html = meta_elements html"

definition get_absolute_url :: "world \<Rightarrow> string \<Rightarrow> string list \<Rightarrow> string list" where
  "get_absolute_url w base_url urls = map (\<lambda>u. urljoin w base_url u) urls"

definition analyze_markup :: "world \<Rightarrow> app list \<Rightarrow> response \<Rightarrow> string list \<Rightarrow> error + string list" where
  "analyze_markup w apps resp detected =
     (let html = soup resp;
          scripts = get_scripts html;
          meta_tags = get_meta_tags html
      in bind_err (analyze_html apps (text_body resp) detected) (\<lambda>d1.
         bind_err (analyze_scripts apps scripts d1) (\<lambda>d2.
         bind_err (analyze_js w apps (get_absolute_url w (request_url resp) scripts) d2) (\<lambda>d3.
         analyze_meta apps meta_tags d3))))"

definition analyze :: "world \<Rightarrow> app list \<Rightarrow> response \<Rightarrow> error + string list" where
  "analyze w apps resp =
     bind_err (if is_html_document (soup resp) then analyze_markup w apps resp [] else Inr []) (\<lambda>d1.
     bind_err (analyze_url apps (url resp) d1) (\<lambda>d2.
     bind_err (analyze_headers apps (headers resp) d2) (\<lambda>d3.
     analyze_cookies apps (cookies resp) d3)))"

section \<open>Rules and responses used as examples\<close>

text \<open>What \<open>re.compile('^$', flags)\<close> returns, the matcher \<open>compile_regex\<close> falls back on.\<close>

definition fallback :: "bool \<Rightarrow> compiled" where
  "fallback ic =
     \<lparr>re_flags = \<lparr>ignorecase = ic, dotall = True\<rparr>,
      re_prog = Cat (At AT_BEGINNING) (At AT_END), re_groups = 0\<rparr>"

text \<open>A rule whose only pattern, for the \<open>script\<close> signal, does not compile.\<close>

definition broken_rule :: app where
  "broken_rule = \<lparr>name = ''X'', implies = [], props = [(''script'', JString ''('')]\<rparr>"

text \<open>The attribute \<^verbatim>\<open>\;version:\1\<close>, and the rule and the compiled pattern of the version
  example.\<close>

definition version_attr :: string where
  "version_attr = backslash # '';version:'' @ [backslash, CHR ''1'']"




text \<open>The compiled form of the pattern \<^verbatim>\<open>Foo\;version:\1\<close> and of the empty pattern.\<close>

definition foo_source :: string where
  "foo_source = ''Foo'' @ version_attr"

definition foo_pattern :: pattern where
  "foo_pattern =
     [''string'' \<mapsto> AString ''Foo'',
      ''regex'' \<mapsto> ARegex \<lparr>re_flags = \<lparr>ignorecase = True, dotall = True\<rparr>,
                             re_prog = seq (map Literal ''Foo''), re_groups = 0\<rparr>,
      ''version'' \<mapsto> AString [backslash, CHR ''1'']]"

definition empty_pattern :: pattern where
  "empty_pattern =
     [''string'' \<mapsto> AString [],
      ''regex'' \<mapsto> ARegex \<lparr>re_flags = \<lparr>ignorecase = True, dotall = True\<rparr>,
                             re_prog = Empty, re_groups = 0\<rparr>]"

text \<open>Three rules in a chain of implications, each with one \<open>url\<close> pattern, and a rule
  with two \<open>url\<close> patterns of which only the first extracts a version.\<close>

definition chain_a :: app where
  "chain_a = \<lparr>name = ''A'', implies = [''B''], props = [(''url'', JString ''alpha'')]\<rparr>"

definition chain_b :: app where
  "chain_b = \<lparr>name = ''B'', implies = [''C''], props = [(''url'', JString ''beta'')]\<rparr>"

definition chain_c :: app where
  "chain_c = \<lparr>name = ''C'', implies = [], props = [(''url'', JString ''gamma'')]\<rparr>"

definition plain_pattern :: "string \<Rightarrow> regex \<Rightarrow> pattern" where
  "plain_pattern s r =
     [''string'' \<mapsto> AString s,
      ''regex'' \<mapsto> ARegex \<lparr>re_flags = \<lparr>ignorecase = True, dotall = True\<rparr>,
                             re_prog = r, re_groups = 0\<rparr>]"

definition two_patterns :: app where
  "two_patterns =
     \<lparr>name = ''X'', implies = [],
      props = [(''url'', JArray [JString (''a(b)'' @ version_attr), JString ''a''])]\<rparr>"

definition ab_version_pattern :: pattern where
  "ab_version_pattern =
     [''string'' \<mapsto> AString ''a(b)'',
      ''regex'' \<mapsto> ARegex \<lparr>re_flags = \<lparr>ignorecase = True, dotall = True\<rparr>,
                             re_prog = Cat (Literal CHR ''a'') (Subpattern (Some 0) (Literal CHR ''b'')),
                             re_groups = 1\<rparr>,
      ''version'' \<mapsto> AString [backslash, CHR ''1'']]"

text \<open>A world in which every fetch succeeds with an empty body, and a response that is not
  markup: only its URL, headers and cookies are analysed.\<close>

definition quiet_world :: world where
  "quiet_world = \<lparr>fetch = (\<lambda>u. Inr []), urljoin = (\<lambda>base u. base @ u)\<rparr>"

definition no_markup :: document where
  "no_markup = \<lparr>has_html = False, script_tags = [], meta_elements = []\<rparr>"

definition url_response :: "string \<Rightarrow> response" where
  "url_response u =
     \<lparr>url = u, request_url = u, text_body = [], headers = Map.empty, cookies = Map.empty,
      soup = no_markup\<rparr>"

text \<open>A world in which the fetch of one script fails, and a page with two scripts.\<close>

definition flaky_world :: world where
  "flaky_world =
     \<lparr>fetch = (\<lambda>u. if u = ''http://x/a.js'' then Inl FetchError else Inr []),
      urljoin = (\<lambda>base u. base @ u)\<rparr>"

definition two_scripts_page :: response where
  "two_scripts_page =
     \<lparr>url = ''http://x/alpha'', request_url = ''http://x/'', text_body = ''<html>'',
      headers = Map.empty, cookies = Map.empty,
      soup = \<lparr>has_html = True,
               script_tags = [[(''src'', ''a.js'')], [(''src'', ''b.js'')]],
               meta_elements = []\<rparr>\<rparr>"

text \<open>A world in which every script has the same body, and the rule of the guard example,
  \<^verbatim>\<open>js: {"jQuery.fn.jquery": "(.*)\;version:\1"}\<close>.\<close>

definition body_world :: "string \<Rightarrow> world" where
  "body_world js = \<lparr>fetch = (\<lambda>u. Inr js), urljoin = (\<lambda>base u. base @ u)\<rparr>"

definition jquery :: app where
  "jquery =
     \<lparr>name = ''jQuery'', implies = [],
      props = [(''js'', JObject [(''jQuery.fn.jquery'', JString (''(.*)'' @ version_attr))])]\<rparr>"

text \<open>A rule keyed on the meta name \<open>generator\<close>, and a page whose only meta element has
  that name and no \<open>content\<close>.\<close>

definition generator_rule :: app where
  "generator_rule =
     \<lparr>name = ''WordPress'', implies = [],
      props = [(''meta'', JObject [(''generator'', JString ''WordPress'')])]\<rparr>"

definition meta_page :: "tag \<Rightarrow> response" where
  "meta_page t =
     \<lparr>url = ''http://x/alpha'', request_url = ''http://x/'', text_body = ''<html>'',
      headers = Map.empty, cookies = Map.empty,
      soup = \<lparr>has_html = True, script_tags = [], meta_elements = [t]\<rparr>\<rparr>"




section \<open>Properties of the pattern compiler\<close>


lemma search_from_fallback_shorter:
  "length w < n \<Longrightarrow> search_from (fallback ic) n w = None"
  by (induction w) (auto simp: fallback_def)

lemma re_search_fallback:
  "re_search (fallback ic) c = (if c = [] \<or> c = [newline] then Some [] else None)"
proof (cases c)
  case Nil
  then show ?thesis by (simp add: re_search_def fallback_def)
next
  case (Cons x w)
  have "search_from (fallback ic) (length c) w = None"
    using Cons by (intro search_from_fallback_shorter) simp
  with Cons show ?thesis by (auto simp: re_search_def fallback_def)
qed

lemma re_compile_fallback:
  "re_compile ''^$'' \<lparr>ignorecase = ic, dotall = True\<rparr> = Parsed (fallback ic)"
  by (simp add: re_compile_def sre_parse_def backslash_def step_def step_main_def add_item_def
        finish_def fallback_def)

lemma unbalanced_rejected:
  "re_compile (str_replace ''[^]'' ''.'' ''('') \<lparr>ignorecase = True, dotall = True\<rparr> = ReError"
  by code_simp

text \<open>
  Claim C3, as amended. When the regex segment does not compile, \<open>compile_regex\<close> does not
  raise: it returns the matcher of \<open>^$\<close> with the same flags. The search of that matcher
  succeeds on the empty string and on the string that consists of one newline, and on no
  other candidate; on every other candidate a pattern that carries it registers nothing.
\<close>

theorem compile_error_gives_fallback:
  assumes "re_compile (str_replace ''[^]'' ''.'' s) \<lparr>ignorecase = ic, dotall = True\<rparr> = ReError"
  shows "compile_regex s ic = Inr (fallback ic)
         \<and> (\<forall>c. (re_search (fallback ic) c \<noteq> None) = (c = [] \<or> c = [newline]))
         \<and> (\<forall>pattern app c detected.
               pattern ''regex'' = Some (ARegex (fallback ic)) \<longrightarrow> c \<noteq> [] \<longrightarrow> c \<noteq> [newline] \<longrightarrow>
               test_patterns app [pattern] c detected = Inr detected)"
proof (intro conjI allI impI)
  show "compile_regex s ic = Inr (fallback ic)"
    using assms by (simp add: compile_regex_def re_compile_fallback)
next
  fix c
  show "(re_search (fallback ic) c \<noteq> None) = (c = [] \<or> c = [newline])"
    by (simp add: re_search_fallback)
next
  fix pattern :: pattern and app c detected
  assume "pattern ''regex'' = Some (ARegex (fallback ic))" "c \<noteq> []" "c \<noteq> [newline]"
  then show "test_patterns app [pattern] c detected = Inr detected"
    by (simp add: pattern_search_def re_search_fallback)
qed

theorem compile_error_gives_fallback_witness:
  "re_compile (str_replace ''[^]'' ''.'' ''('') \<lparr>ignorecase = True, dotall = True\<rparr> = ReError
   \<and> compile_regex ''('' True = Inr (fallback True)
   \<and> re_search (fallback True) ''nginx'' = None
   \<and> test_patterns broken_rule [[''regex'' \<mapsto> ARegex (fallback True)]] ''nginx'' [] = Inr []"
proof -
  note t = compile_error_gives_fallback [OF unbalanced_rejected]
  have a: "compile_regex ''('' True = Inr (fallback True)"
    by (rule t [THEN conjunct1])
  have "(re_search (fallback True) ''nginx'' \<noteq> None) = (''nginx'' = [] \<or> ''nginx'' = [newline])"
    by (rule t [THEN conjunct2, THEN conjunct1, THEN spec])
  then have b: "re_search (fallback True) ''nginx'' = None"
    by simp
  have c: "test_patterns broken_rule [[''regex'' \<mapsto> ARegex (fallback True)]] ''nginx'' [] = Inr []"
    by (rule t [THEN conjunct2, THEN conjunct2, rule_format]) simp_all
  from unbalanced_rejected a b c show ?thesis
    by (intro conjI)
qed

text \<open>
  Claim C3 as stated fails: the fallback matcher does find something in a candidate that
  is not empty, the single newline, and the rule whose pattern is \<open>(\<close> is then registered
  (here for a script element whose \<open>src\<close> is a newline).
\<close>

theorem fallback_matches_newline:
  "re_compile (str_replace ''[^]'' ''.'' ''('') \<lparr>ignorecase = True, dotall = True\<rparr> = ReError
   \<and> compile_regex ''('' True = Inr (fallback True)
   \<and> [newline] \<noteq> []
   \<and> re_search (fallback True) [newline] = Some []
   \<and> analyze_scripts [broken_rule] [[newline]] [] = Inr [''X'']"
proof -
  have "compile_regex ''('' True = Inr (fallback True)"
    using unbalanced_rejected by (simp add: compile_regex_def re_compile_fallback)
  moreover have "re_search (fallback True) [newline] = Some []"
    by (simp add: re_search_fallback)
  moreover have "analyze_scripts [broken_rule] [[newline]] [] = Inr [''X'']"
    by code_simp
  ultimately show ?thesis
    using unbalanced_rejected by simp
qed

section \<open>Properties of registration\<close>


lemma split_version: "str_split '':'' (''version:'' @ [backslash, CHR ''1'']) = [''version'', [backslash, CHR ''1'']]"
  by code_simp











lemma match_foo: "re_match \<lparr>re_flags = \<lparr>ignorecase = True, dotall = True\<rparr>,
                            re_prog = seq (map Literal ''Foo''), re_groups = 0\<rparr> ''Foo'' = Some []"
  by code_simp




section \<open>Properties of pattern-group normalization\<close>

lemma split_foo:
  "str_split (backslash # '';'') foo_source = [''Foo'', ''version:'' @ [backslash, CHR ''1'']]"
  by code_simp

lemma foo_source_nonempty: "foo_source \<noteq> []"
  by (simp add: foo_source_def)

lemma compile_foo:
  "compile_regex ''Foo'' True
     = Inr \<lparr>re_flags = \<lparr>ignorecase = True, dotall = True\<rparr>,
            re_prog = seq (map Literal ''Foo''), re_groups = 0\<rparr>"
  by code_simp

lemma parse_foo: "parse_pattern foo_source = Inr foo_pattern"
  by (simp only: parse_pattern_def split_foo split_version compile_foo list.case sum.case
        parse_attrs.simps Let_def foo_pattern_def list.size str_join.simps list.sel)
     simp

lemma compile_empty:
  "compile_regex [] True
     = Inr \<lparr>re_flags = \<lparr>ignorecase = True, dotall = True\<rparr>, re_prog = Empty, re_groups = 0\<rparr>"
  by code_simp

lemma parse_empty: "parse_pattern [] = Inr empty_pattern"
proof -
  have "str_split (backslash # '';'') [] = [[]]"
    by code_simp
  then show ?thesis
    by (simp add: parse_pattern_def compile_empty empty_pattern_def)
qed

lemma parse_patterns_flat:
  "s \<noteq> [] \<Longrightarrow>
   parse_patterns (JString s)
     = (case parse_pattern s of Inl e \<Rightarrow> Inl e | Inr p \<Rightarrow> Inr (PList [p]))"
  by (simp add: parse_patterns_def split: sum.splits)

lemma parse_patterns_singleton:
  "parse_patterns (JArray [JString s])
     = (case parse_pattern s of Inl e \<Rightarrow> Inl e | Inr p \<Rightarrow> Inr (PList [p]))"
  by (simp add: parse_patterns_def split: sum.splits)

text \<open>
  Claim C9, as amended. For every pattern string \<open>s\<close> that is not empty, the string \<open>s\<close> and
  the list \<open>[s]\<close> normalize to the same group; a flat group normalizes to a bare list; and
  a group that has the sub-key \<open>main\<close> after normalization (in particular one that has no
  other) yields the bare list of the compiled patterns of \<open>main\<close>.
\<close>

theorem flat_shapes_normalize_alike:
  "(s \<noteq> [] \<longrightarrow> parse_patterns (JString s) = parse_patterns (JArray [JString s]))
   \<and> (parse_patterns (JString s) = Inr r \<longrightarrow> (\<exists>ps. r = PList ps))
   \<and> (truthy v \<longrightarrow> pattern_items v = Inr kvs \<longrightarrow> parse_items kvs [] = Inr parsed \<longrightarrow>
        map_of parsed ''main'' = Some ps \<longrightarrow> parse_patterns v = Inr (PList ps))"
proof (intro conjI impI)
  assume "s \<noteq> []"
  then show "parse_patterns (JString s) = parse_patterns (JArray [JString s])"
    by (simp add: parse_patterns_flat parse_patterns_singleton)
next
  assume "parse_patterns (JString s) = Inr r"
  then show "\<exists>ps. r = PList ps"
    by (cases "s = []") (auto simp: parse_patterns_flat parse_patterns_def split: sum.splits)
next
  assume "truthy v" "pattern_items v = Inr kvs" "parse_items kvs [] = Inr parsed"
    "map_of parsed ''main'' = Some ps"
  then show "parse_patterns v = Inr (PList ps)"
    by (simp add: parse_patterns_def)
qed

theorem flat_shapes_normalize_alike_witness:
  "foo_source \<noteq> []
   \<and> parse_patterns (JString foo_source) = parse_patterns (JArray [JString foo_source])
   \<and> parse_patterns (JString foo_source) = Inr (PList [foo_pattern])
   \<and> truthy (JObject [(''main'', JString foo_source)])
   \<and> pattern_items (JObject [(''main'', JString foo_source)])
        = Inr [(''main'', JString foo_source)]
   \<and> parse_items [(''main'', JString foo_source)] [] = Inr [(''main'', [foo_pattern])]
   \<and> map_of [(''main'', [foo_pattern])] ''main'' = Some [foo_pattern]
   \<and> parse_patterns (JObject [(''main'', JString foo_source)]) = Inr (PList [foo_pattern])"
proof -
  have ne: "foo_source \<noteq> []"
    by (rule foo_source_nonempty)
  have flat: "parse_patterns (JString foo_source) = Inr (PList [foo_pattern])"
    unfolding parse_patterns_flat [OF ne] parse_foo by simp
  have tr: "truthy (JObject [(''main'', JString foo_source)])"
    by simp
  have it: "pattern_items (JObject [(''main'', JString foo_source)])
        = Inr [(''main'', JString foo_source)]"
    by simp
  have pi: "parse_items [(''main'', JString foo_source)] [] = Inr [(''main'', [foo_pattern])]"
    by (simp add: parse_foo)
  have mo: "map_of [(''main'', [foo_pattern])] ''main'' = Some [foo_pattern]"
    by simp
  note t1 = flat_shapes_normalize_alike [where s = foo_source, THEN conjunct1]
  note t3 = flat_shapes_normalize_alike
              [where v = "JObject [(''main'', JString foo_source)]"
                 and kvs = "[(''main'', JString foo_source)]"
                 and parsed = "[(''main'', [foo_pattern])]" and ps = "[foo_pattern]",
               THEN conjunct2, THEN conjunct2]
  have eq: "parse_patterns (JString foo_source)
              = parse_patterns (JArray [JString foo_source])"
    using t1 ne by (rule mp)
  have keyed: "parse_patterns (JObject [(''main'', JString foo_source)]) = Inr (PList [foo_pattern])"
    using t3 tr it pi mo by (elim impE)
  from ne eq flat tr it pi mo keyed show ?thesis
    by (intro conjI)
qed

text \<open>
  Claim C9 as stated fails for the empty pattern string: \<open>parse_patterns\<close> returns the empty
  list for every value that is false in Python, the empty string among them, while the
  list that holds the empty string yields one compiled pattern.
\<close>

theorem empty_string_normalizes_differently:
  "parse_patterns (JString []) = Inr (PList [])
   \<and> parse_patterns (JArray [JString []]) = Inr (PList [empty_pattern])
   \<and> parse_patterns (JString []) \<noteq> parse_patterns (JArray [JString []])"
  by (simp add: parse_patterns_singleton parse_empty) (simp add: parse_patterns_def)

subsection \<open>The result list under registration\<close>

lemma set_append_new: "set (append_new x d) = insert x (set d)"
  by (auto simp: append_new_def)

lemma distinct_append_new: "distinct d \<Longrightarrow> distinct (append_new x d)"
  by (simp add: append_new_def)

lemma append_new_extends: "\<exists>new. append_new x d = d @ new \<and> set new \<subseteq> {x} - set d"
  by (auto simp: append_new_def)

lemma append_new_present: "x \<in> set d \<Longrightarrow> append_new x d = d"
  by (simp add: append_new_def)

lemma set_add_implies: "set (add_implies names d) = set names \<union> set d"
  by (induction names arbitrary: d) (auto simp: set_append_new)

lemma distinct_add_implies: "distinct d \<Longrightarrow> distinct (add_implies names d)"
  by (induction names arbitrary: d) (auto simp: distinct_append_new)

lemma add_implies_extends: "\<exists>new. add_implies names d = d @ new \<and> set new \<subseteq> set names - set d"
proof (induction names arbitrary: d)
  case Nil
  then show ?case by simp
next
  case (Cons n names)
  obtain new1 where n1: "append_new n d = d @ new1" "set new1 \<subseteq> {n} - set d"
    using append_new_extends by blast
  obtain new2 where n2: "add_implies names (d @ new1) = (d @ new1) @ new2"
    "set new2 \<subseteq> set names - set (d @ new1)"
    using Cons.IH by blast
  have "add_implies (n # names) d = d @ (new1 @ new2)"
    using n1 n2 by simp
  moreover have "set (new1 @ new2) \<subseteq> set (n # names) - set d"
    using n1 n2 by auto
  ultimately show ?case by blast
qed

lemma add_implies_present: "set names \<subseteq> set d \<Longrightarrow> add_implies names d = d"
  by (induction names arbitrary: d) (auto simp: append_new_present)

lemma add_detected_distinct:
  "distinct d \<Longrightarrow> add_detected app p v d = Inr d' \<Longrightarrow> distinct d'"
  by (auto simp: add_detected_def distinct_add_implies distinct_append_new split: sum.splits)

lemma add_detected_set:
  "add_detected app p v d = Inr d' \<Longrightarrow> display_name app p v = Inr shown \<Longrightarrow>
   set d' = set d \<union> {shown} \<union> set (implies app)"
  by (auto simp: add_detected_def set_add_implies set_append_new)

lemma add_detected_extends:
  "add_detected app p v d = Inr d' \<Longrightarrow> display_name app p v = Inr shown \<Longrightarrow>
   \<exists>new. d' = d @ new \<and> set new \<subseteq> ({shown} \<union> set (implies app)) - set d"
proof -
  assume a: "add_detected app p v d = Inr d'" and s: "display_name app p v = Inr shown"
  obtain new1 where n1: "append_new shown d = d @ new1" "set new1 \<subseteq> {shown} - set d"
    using append_new_extends by blast
  obtain new2 where n2: "add_implies (implies app) (d @ new1) = (d @ new1) @ new2"
    "set new2 \<subseteq> set (implies app) - set (d @ new1)"
    using add_implies_extends by blast
  have "d' = d @ (new1 @ new2)"
    using a s n1 n2 by (simp add: add_detected_def)
  moreover have "set (new1 @ new2) \<subseteq> ({shown} \<union> set (implies app)) - set d"
    using n1 n2 by auto
  ultimately show ?thesis by blast
qed

lemma add_detected_idem:
  "add_detected app p v d = Inr d' \<Longrightarrow> add_detected app p v d' = Inr d'"
proof -
  assume a: "add_detected app p v d = Inr d'"
  then obtain shown where s: "display_name app p v = Inr shown"
    by (auto simp: add_detected_def split: sum.splits)
  have "set d' = set d \<union> {shown} \<union> set (implies app)"
    using a s by (rule add_detected_set)
  then have "shown \<in> set d'" "set (implies app) \<subseteq> set d'"
    by auto
  then show ?thesis
    using s by (simp add: add_detected_def append_new_present add_implies_present)
qed

lemma test_patterns_distinct:
  "distinct d \<Longrightarrow> test_patterns app ps v d = Inr d' \<Longrightarrow> distinct d'"
  by (induction ps arbitrary: d) (auto split: sum.splits if_splits dest: add_detected_distinct)

lemma test_flat_distinct:
  "distinct d \<Longrightarrow> test_flat app patterns v d = Inr d' \<Longrightarrow> distinct d'"
  by (auto simp: test_flat_def split: parsed.splits if_splits dest: test_patterns_distinct)

subsection \<open>What every registration preserves, every pass preserves\<close>

lemma for_each_inv:
  assumes "for_each body xs s = Inr s'" and "P s"
    and "\<And>x s s'. P s \<Longrightarrow> body x s = Inr s' \<Longrightarrow> P s'"
  shows "P s'"
  using assms(1,2)
proof (induction xs arbitrary: s)
  case Nil
  then show ?case by simp
next
  case (Cons x xs)
  from Cons.prems(1) obtain s1 where s1: "body x s = Inr s1" "for_each body xs s1 = Inr s'"
    by (auto split: sum.splits)
  from assms(3) [OF Cons.prems(2) s1(1)] have "P s1" .
  from Cons.IH [OF s1(2) this] show ?case .
qed

lemma iter_apps_inv:
  assumes "iter_apps key body apps s = Inr s'" and "P s"
    and "\<And>app patterns s s'. P s \<Longrightarrow> body app patterns s = Inr s' \<Longrightarrow> P s'"
  shows "P s'"
proof (rule for_each_inv [where P = P, OF assms(1) [unfolded iter_apps_def] assms(2)])
  fix x s s'
  assume "P s"
    and "(case map_of (props x) key of None \<Rightarrow> Inr s
          | Some v \<Rightarrow> (case parse_patterns v of Inl e \<Rightarrow> Inl e
                       | Inr patterns \<Rightarrow> body x patterns s)) = Inr s'"
  then show "P s'"
    by (auto split: option.splits sum.splits dest: assms(3))
qed

lemma test_patterns_inv:
  assumes "test_patterns app ps v d = Inr d'" and "P d"
    and "\<And>p d d'. P d \<Longrightarrow> add_detected app p v d = Inr d' \<Longrightarrow> P d'"
  shows "P d'"
  using assms(1,2)
proof (induction ps arbitrary: d)
  case Nil
  then show ?case by simp
next
  case (Cons p ps)
  show ?case
  proof (cases "pattern_search p v")
    case (Inl e)
    with Cons.prems(1) show ?thesis by simp
  next
    case (Inr hit)
    show ?thesis
    proof (cases hit)
      case True
      with Inr Cons.prems(1) obtain d1 where d1: "add_detected app p v d = Inr d1"
        "test_patterns app ps v d1 = Inr d'"
        by (auto split: sum.splits)
      from assms(3) [OF Cons.prems(2) d1(1)] have "P d1" .
      from Cons.IH [OF d1(2) this] show ?thesis .
    next
      case False
      with Inr Cons.prems(1) have "test_patterns app ps v d = Inr d'"
        by simp
      from Cons.IH [OF this Cons.prems(2)] show ?thesis .
    qed
  qed
qed

lemma test_flat_inv:
  assumes "test_flat app patterns v d = Inr d'" and "P d"
    and "\<And>p d d'. P d \<Longrightarrow> add_detected app p v d = Inr d' \<Longrightarrow> P d'"
  shows "P d'"
proof (cases patterns)
  case (PList ps)
  with assms(1) have "test_patterns app ps v d = Inr d'"
    by (simp add: test_flat_def)
  then show ?thesis
    using assms(2,3) by (rule test_patterns_inv [where P = P])
next
  case (PDict kvs)
  with assms(1) have "d' = d"
    by (simp add: test_flat_def split: if_splits)
  with assms(2) show ?thesis by simp
qed

lemma test_meta_patterns_inv:
  assumes "test_meta_patterns app ps content d = Inr d'" and "P d"
    and "\<And>p v d d'. P d \<Longrightarrow> add_detected app p v d = Inr d' \<Longrightarrow> P d'"
  shows "P d'"
proof (cases content)
  case None
  with assms(1) have "d' = d"
    by (simp add: test_meta_patterns_def split: list.splits option.splits attr.splits)
  with assms(2) show ?thesis by simp
next
  case (Some v)
  with assms(1) have "test_patterns app ps v d = Inr d'"
    by (simp add: test_meta_patterns_def)
  then show ?thesis
    using assms(2,3) by (rule test_patterns_inv [where P = P])
qed

lemma analyze_url_inv:
  assumes "analyze_url apps u d = Inr d'" and "P d"
    and "\<And>app p v d d'. P d \<Longrightarrow> add_detected app p v d = Inr d' \<Longrightarrow> P d'"
  shows "P d'"
proof (rule iter_apps_inv [where P = P, OF assms(1) [unfolded analyze_url_def] assms(2)])
  fix app patterns s s'
  assume s0: "P s" and run0: "test_flat app patterns u s = Inr s'"
    from run0 s0 assms(3) show "P s'"
      by (rule test_flat_inv [where P = P])
qed

lemma analyze_html_inv:
  assumes "analyze_html apps h d = Inr d'" and "P d"
    and "\<And>app p v d d'. P d \<Longrightarrow> add_detected app p v d = Inr d' \<Longrightarrow> P d'"
  shows "P d'"
proof (rule iter_apps_inv [where P = P, OF assms(1) [unfolded analyze_html_def] assms(2)])
  fix app patterns s s'
  assume s0: "P s" and run0: "test_flat app patterns h s = Inr s'"
    from run0 s0 assms(3) show "P s'"
      by (rule test_flat_inv [where P = P])
qed

lemma script_rule_inv:
  assumes "script_rule scripts app patterns d = Inr d'" and "P d"
    and "\<And>p v d d'. P d \<Longrightarrow> add_detected app p v d = Inr d' \<Longrightarrow> P d'"
  shows "P d'"
proof (rule for_each_inv [where P = P, OF assms(1) [unfolded script_rule_def] assms(2)])
  fix uri t t'
  assume s0: "P t" and run0: "test_flat app patterns uri t = Inr t'"
    from run0 s0 assms(3) show "P t'"
      by (rule test_flat_inv [where P = P])
qed

lemma analyze_scripts_inv:
  assumes "analyze_scripts apps scripts d = Inr d'" and "P d"
    and "\<And>app p v d d'. P d \<Longrightarrow> add_detected app p v d = Inr d' \<Longrightarrow> P d'"
  shows "P d'"
proof (rule iter_apps_inv [where P = P, OF assms(1) [unfolded analyze_scripts_def] assms(2)])
  fix app patterns s s'
  assume s0: "P s" and run0: "script_rule scripts app patterns s = Inr s'"
    from run0 s0 assms(3) show "P s'"
      by (rule script_rule_inv [where P = P])
qed

lemma test_keyed_inv:
  assumes "test_keyed container app entry d = Inr d'" and "P d"
    and "\<And>p v d d'. P d \<Longrightarrow> add_detected app p v d = Inr d' \<Longrightarrow> P d'"
  shows "P d'"
proof (cases "container (fst entry)")
  case None
  with assms(1,2) show ?thesis by (simp add: test_keyed_def)
next
  case (Some v)
  with assms(1) have "test_patterns app (snd entry) v d = Inr d'"
    by (simp add: test_keyed_def)
  then show ?thesis
    using assms(2,3) by (rule test_patterns_inv [where P = P])
qed

lemma keyed_rule_inv:
  assumes "keyed_rule container app patterns d = Inr d'" and "P d"
    and "\<And>p v d d'. P d \<Longrightarrow> add_detected app p v d = Inr d' \<Longrightarrow> P d'"
  shows "P d'"
proof -
  from assms(1) obtain kvs where run: "for_each (test_keyed container app) kvs d = Inr d'"
    by (auto simp: keyed_rule_def split: sum.splits)
  show ?thesis
  proof (rule for_each_inv [where P = P, OF run assms(2)])
    fix entry t t'
    assume s0: "P t" and run0: "test_keyed container app entry t = Inr t'"
    from run0 s0 assms(3) show "P t'"
      by (rule test_keyed_inv [where P = P])
  qed
qed

lemma analyze_cookies_inv:
  assumes "analyze_cookies apps c d = Inr d'" and "P d"
    and "\<And>app p v d d'. P d \<Longrightarrow> add_detected app p v d = Inr d' \<Longrightarrow> P d'"
  shows "P d'"
proof (rule iter_apps_inv [where P = P, OF assms(1) [unfolded analyze_cookies_def] assms(2)])
  fix app patterns s s'
  assume s0: "P s" and run0: "keyed_rule c app patterns s = Inr s'"
    from run0 s0 assms(3) show "P s'"
      by (rule keyed_rule_inv [where P = P])
qed

lemma analyze_headers_inv:
  assumes "analyze_headers apps h d = Inr d'" and "P d"
    and "\<And>app p v d d'. P d \<Longrightarrow> add_detected app p v d = Inr d' \<Longrightarrow> P d'"
  shows "P d'"
proof (rule iter_apps_inv [where P = P, OF assms(1) [unfolded analyze_headers_def] assms(2)])
  fix app patterns s s'
  assume s0: "P s" and run0: "keyed_rule h app patterns s = Inr s'"
    from run0 s0 assms(3) show "P s'"
      by (rule keyed_rule_inv [where P = P])
qed

lemma meta_entry_inv:
  assumes "meta_entry app n1 n2 content entry d = Inr d'" and "P d"
    and "\<And>p v d d'. P d \<Longrightarrow> add_detected app p v d = Inr d' \<Longrightarrow> P d'"
  shows "P d'"
proof (cases "fst entry = n1 \<or> fst entry = n2")
  case True
  with assms(1) have "test_meta_patterns app (snd entry) content d = Inr d'"
    by (simp add: meta_entry_def)
  then show ?thesis
    using assms(2,3) by (rule test_meta_patterns_inv [where P = P])
next
  case False
  with assms(1,2) show ?thesis by (simp add: meta_entry_def)
qed

lemma meta_tag_rule_inv:
  assumes "meta_tag_rule app patterns t d = Inr d'" and "P d"
    and "\<And>p v d d'. P d \<Longrightarrow> add_detected app p v d = Inr d' \<Longrightarrow> P d'"
  shows "P d'"
proof (cases "lower (attr_get t ''name'' []) \<noteq> [] \<or> lower (attr_get t ''property'' []) \<noteq> []")
  case True
  with assms(1) obtain kvs where
    run: "for_each (meta_entry app (lower (attr_get t ''name'' [])) (lower (attr_get t ''property'' []))
                      (map_of t ''content'')) kvs d = Inr d'"
    by (auto simp: meta_tag_rule_def Let_def split: sum.splits)
  show ?thesis
  proof (rule for_each_inv [where P = P, OF run assms(2)])
    fix entry s s'
    assume s0: "P s" and run0: "meta_entry app (lower (attr_get t ''name'' [])) (lower (attr_get t ''property'' []))
         (map_of t ''content'') entry s = Inr s'"
    from run0 s0 assms(3) show "P s'"
      by (rule meta_entry_inv [where P = P])
  qed
next
  case False
  with assms(1,2) show ?thesis by (simp add: meta_tag_rule_def Let_def)
qed

lemma meta_rule_inv:
  assumes "meta_rule tags app patterns d = Inr d'" and "P d"
    and "\<And>p v d d'. P d \<Longrightarrow> add_detected app p v d = Inr d' \<Longrightarrow> P d'"
  shows "P d'"
proof (rule for_each_inv [where P = P, OF assms(1) [unfolded meta_rule_def] assms(2)])
  fix t s s'
  assume s0: "P s" and run0: "meta_tag_rule app patterns t s = Inr s'"
    from run0 s0 assms(3) show "P s'"
      by (rule meta_tag_rule_inv [where P = P])
qed

lemma analyze_meta_inv:
  assumes "analyze_meta apps tags d = Inr d'" and "P d"
    and "\<And>app p v d d'. P d \<Longrightarrow> add_detected app p v d = Inr d' \<Longrightarrow> P d'"
  shows "P d'"
proof (rule iter_apps_inv [where P = P, OF assms(1) [unfolded analyze_meta_def] assms(2)])
  fix app patterns s s'
  assume s0: "P s" and run0: "meta_rule tags app patterns s = Inr s'"
    from run0 s0 assms(3) show "P s'"
      by (rule meta_rule_inv [where P = P])
qed

lemma js_entry_inv:
  assumes "js_entry js app entry d = Inr d'" and "P d"
    and "\<And>p v d d'. P d \<Longrightarrow> add_detected app p v d = Inr d' \<Longrightarrow> P d'"
  shows "P d'"
proof -
  from assms(1) obtain g where g: "compile_regex (global_guard (fst entry)) False = Inr g"
    by (auto simp: js_entry_def split: sum.splits)
  show ?thesis
  proof (cases "re_search g js \<noteq> None")
    case True
    with assms(1) g have "test_patterns app (snd entry) js d = Inr d'"
      by (simp add: js_entry_def)
    then show ?thesis
      using assms(2,3) by (rule test_patterns_inv [where P = P])
  next
    case False
    with assms(1,2) g show ?thesis by (simp add: js_entry_def)
  qed
qed

lemma js_rule_inv:
  assumes "js_rule js app patterns d = Inr d'" and "P d"
    and "\<And>p v d d'. P d \<Longrightarrow> add_detected app p v d = Inr d' \<Longrightarrow> P d'"
  shows "P d'"
proof -
  from assms(1) obtain kvs where run: "for_each (js_entry js app) kvs d = Inr d'"
    by (auto simp: js_rule_def split: sum.splits)
  show ?thesis
  proof (rule for_each_inv [where P = P, OF run assms(2)])
    fix entry t t'
    assume s0: "P t" and run0: "js_entry js app entry t = Inr t'"
    from run0 s0 assms(3) show "P t'"
      by (rule js_entry_inv [where P = P])
  qed
qed

lemma js_script_inv:
  assumes "js_script w apps script d = Inr d'" and "P d"
    and "\<And>app p v d d'. P d \<Longrightarrow> add_detected app p v d = Inr d' \<Longrightarrow> P d'"
  shows "P d'"
proof -
  from assms(1) obtain js where run: "iter_apps ''js'' (js_rule js) apps d = Inr d'"
    by (auto simp: js_script_def split: sum.splits)
  show ?thesis
  proof (rule iter_apps_inv [where P = P, OF run assms(2)])
    fix app patterns s s'
    assume s0: "P s" and run0: "js_rule js app patterns s = Inr s'"
    from run0 s0 assms(3) show "P s'"
      by (rule js_rule_inv [where P = P])
  qed
qed

lemma analyze_js_inv:
  assumes "analyze_js w apps scripts d = Inr d'" and "P d"
    and "\<And>app p v d d'. P d \<Longrightarrow> add_detected app p v d = Inr d' \<Longrightarrow> P d'"
  shows "P d'"
proof (rule for_each_inv [where P = P, OF assms(1) [unfolded analyze_js_def] assms(2)])
  fix script s s'
  assume s0: "P s" and run0: "js_script w apps script s = Inr s'"
    from run0 s0 assms(3) show "P s'"
      by (rule js_script_inv [where P = P])
qed

lemma analyze_markup_inv:
  assumes "analyze_markup w apps resp d = Inr d'" and "P d"
    and step: "\<And>app p v d d'. P d \<Longrightarrow> add_detected app p v d = Inr d' \<Longrightarrow> P d'"
  shows "P d'"
proof -
  from assms(1) obtain d1 d2 d3 where
    r1: "analyze_html apps (text_body resp) d = Inr d1" and
    r2: "analyze_scripts apps (get_scripts (soup resp)) d1 = Inr d2" and
    r3: "analyze_js w apps (get_absolute_url w (request_url resp) (get_scripts (soup resp))) d2 = Inr d3" and
    r4: "analyze_meta apps (get_meta_tags (soup resp)) d3 = Inr d'"
    by (auto simp: analyze_markup_def bind_err_def Let_def split: sum.splits)
  have p1: "P d1" using r1 assms(2) step by (rule analyze_html_inv [where P = P])
  have p2: "P d2" using r2 p1 step by (rule analyze_scripts_inv [where P = P])
  have p3: "P d3" using r3 p2 step by (rule analyze_js_inv [where P = P])
  show "P d'" using r4 p3 step by (rule analyze_meta_inv [where P = P])
qed

lemma analyze_inv:
  assumes "analyze w apps resp = Inr d'" and "P []"
    and step: "\<And>app p v d d'. P d \<Longrightarrow> add_detected app p v d = Inr d' \<Longrightarrow> P d'"
  shows "P d'"
proof -
  from assms(1) obtain d1 d2 d3 where
    r1: "(if is_html_document (soup resp) then analyze_markup w apps resp [] else Inr []) = Inr d1" and
    r2: "analyze_url apps (url resp) d1 = Inr d2" and
    r3: "analyze_headers apps (headers resp) d2 = Inr d3" and
    r4: "analyze_cookies apps (cookies resp) d3 = Inr d'"
    by (auto simp: analyze_def bind_err_def split: sum.splits)
  have p1: "P d1"
  proof (cases "is_html_document (soup resp)")
    case True
    with r1 have "analyze_markup w apps resp [] = Inr d1" by simp
    then show ?thesis using assms(2) step by (rule analyze_markup_inv [where P = P])
  next
    case False
    with r1 assms(2) show ?thesis by simp
  qed
  have p2: "P d2" using r2 p1 step by (rule analyze_url_inv [where P = P])
  have p3: "P d3" using r3 p2 step by (rule analyze_headers_inv [where P = P])
  show "P d'" using r4 p3 step by (rule analyze_cookies_inv [where P = P])
qed

subsection \<open>Implications and duplicates\<close>

lemma parse_alpha: "parse_patterns (JString ''alpha'') = Inr (PList [plain_pattern ''alpha'' (seq (map Literal ''alpha''))])"
proof -
  have "str_split (backslash # '';'') ''alpha'' = [''alpha'']" by code_simp
  moreover have "compile_regex ''alpha'' True
      = Inr \<lparr>re_flags = \<lparr>ignorecase = True, dotall = True\<rparr>,
             re_prog = seq (map Literal ''alpha''), re_groups = 0\<rparr>" by code_simp
  ultimately have "parse_pattern ''alpha'' = Inr (plain_pattern ''alpha'' (seq (map Literal ''alpha'')))"
    by (simp add: parse_pattern_def plain_pattern_def)
  then show ?thesis
    by (simp add: parse_patterns_flat)
qed

lemma parse_beta: "parse_patterns (JString ''beta'') = Inr (PList [plain_pattern ''beta'' (seq (map Literal ''beta''))])"
proof -
  have "str_split (backslash # '';'') ''beta'' = [''beta'']" by code_simp
  moreover have "compile_regex ''beta'' True
      = Inr \<lparr>re_flags = \<lparr>ignorecase = True, dotall = True\<rparr>,
             re_prog = seq (map Literal ''beta''), re_groups = 0\<rparr>" by code_simp
  ultimately have "parse_pattern ''beta'' = Inr (plain_pattern ''beta'' (seq (map Literal ''beta'')))"
    by (simp add: parse_pattern_def plain_pattern_def)
  then show ?thesis
    by (simp add: parse_patterns_flat)
qed

lemma display_plain: "display_name app (plain_pattern s r) v = Inr (name app)"
  by (simp add: display_name_def plain_pattern_def)

lemma url_chain_alpha:
  "analyze_url [chain_a, chain_b, chain_c] ''alpha'' [] = Inr [''A'', ''B'']"
  by code_simp

lemma pass_chain_alpha:
  "analyze quiet_world [chain_a, chain_b, chain_c] (url_response ''alpha'') = Inr [''A'', ''B'']"
  by code_simp

lemma url_chain_alpha_beta:
  "analyze_url [chain_a, chain_b, chain_c] ''alpha beta'' [] = Inr [''A'', ''B'', ''C'']"
  by code_simp

lemma add_detected_chain_a:
  "add_detected chain_a (plain_pattern ''alpha'' (seq (map Literal ''alpha''))) ''alpha'' [] = Inr [''A'', ''B'']"
  by (simp add: add_detected_def display_plain chain_a_def append_new_def)

lemma add_detected_chain_b:
  "add_detected chain_b (plain_pattern ''beta'' (seq (map Literal ''beta''))) ''alpha beta'' [''A'', ''B'']
     = Inr [''A'', ''B'', ''C'']"
  by (simp add: add_detected_def display_plain chain_b_def append_new_def)

text \<open>
  Claim C7. A registration adds the display name and the names in \<open>implies\<close> of the rule
  that is registered, each at the end and only if it is not there yet, and nothing else:
  \<open>add_detected\<close> never looks at the rule an implied name belongs to. With \<open>A\<close> implying
  \<open>B\<close> and \<open>B\<close> implying \<open>C\<close>, a pass in which only the pattern of \<open>A\<close> matches ends with
  \<open>A\<close> and \<open>B\<close>, without \<open>C\<close>.
\<close>

theorem implication_one_level:
  "(add_detected app pattern v detected = Inr d' \<longrightarrow> display_name app pattern v = Inr shown \<longrightarrow>
      set d' = set detected \<union> {shown} \<union> set (implies app))
   \<and> (add_detected app pattern v detected = Inr d' \<longrightarrow> display_name app pattern v = Inr shown \<longrightarrow>
      (\<exists>new. d' = detected @ new \<and> set new \<subseteq> ({shown} \<union> set (implies app)) - set detected))
   \<and> implies chain_a = [''B''] \<and> implies chain_b = [''C'']
   \<and> analyze quiet_world [chain_a, chain_b, chain_c] (url_response ''alpha'') = Inr [''A'', ''B'']"
proof (intro conjI impI)
  assume "add_detected app pattern v detected = Inr d'" "display_name app pattern v = Inr shown"
  then show "set d' = set detected \<union> {shown} \<union> set (implies app)"
    by (rule add_detected_set)
next
  assume "add_detected app pattern v detected = Inr d'" "display_name app pattern v = Inr shown"
  then show "\<exists>new. d' = detected @ new \<and> set new \<subseteq> ({shown} \<union> set (implies app)) - set detected"
    by (rule add_detected_extends)
next
  show "implies chain_a = [''B'']" by (simp add: chain_a_def)
next
  show "implies chain_b = [''C'']" by (simp add: chain_b_def)
next
  show "analyze quiet_world [chain_a, chain_b, chain_c] (url_response ''alpha'') = Inr [''A'', ''B'']"
    by (rule pass_chain_alpha)
qed

theorem implication_one_level_witness:
  "add_detected chain_a (plain_pattern ''alpha'' (seq (map Literal ''alpha''))) ''alpha'' [] = Inr [''A'', ''B'']
   \<and> display_name chain_a (plain_pattern ''alpha'' (seq (map Literal ''alpha''))) ''alpha'' = Inr ''A''
   \<and> set [''A'', ''B''] = set [] \<union> {''A''} \<union> set (implies chain_a)
   \<and> ''C'' \<notin> set [''A'', ''B'']"
proof -
  have d: "display_name chain_a (plain_pattern ''alpha'' (seq (map Literal ''alpha''))) ''alpha'' = Inr ''A''"
    by (simp add: display_plain chain_a_def)
  note t = implication_one_level
             [where app = chain_a and pattern = "plain_pattern ''alpha'' (seq (map Literal ''alpha''))"
                and v = "''alpha''" and detected = "[]" and d' = "[''A'', ''B'']" and shown = "''A''",
              THEN conjunct1, rule_format, OF add_detected_chain_a d]
  have c: "''C'' \<notin> set [''A'', ''B'']"
    by simp
  from add_detected_chain_a d t c show ?thesis
    by (intro conjI)
qed

lemma add_implies_appends_missing:
  "\<exists>new. add_implies names d = d @ new \<and> set new = set names - set d \<and> distinct new"
proof (induction names arbitrary: d)
  case Nil
  show ?case
    by simp
next
  case (Cons n ns)
  obtain new where new: "add_implies ns (append_new n d) = append_new n d @ new"
    "set new = set ns - set (append_new n d)" "distinct new"
    using Cons.IH [of "append_new n d"] by blast
  show ?case
  proof (cases "n \<in> set d")
    case True
    then have "append_new n d = d"
      by (simp add: append_new_def)
    with new True show ?thesis
      by (intro exI [where x = new]) auto
  next
    case False
    then have e: "append_new n d = d @ [n]"
      by (simp add: append_new_def)
    with new False show ?thesis
      by (intro exI [where x = "n # new"]) auto
  qed
qed

lemma add_detected_present:
  assumes "add_detected app pattern v detected = Inr d'"
    and "display_name app pattern v = Inr shown" and "shown \<in> set detected"
  shows "d' = add_implies (implies app) detected"
  using assms by (simp add: add_detected_def append_new_present)

text \<open>
  Claim C8, as amended. The result never holds a name twice: a registration keeps the
  list free of duplicates, and so the result of every pass is. Registering a display name
  that is already present never adds it again; it appends, once each, exactly the implied
  names of the rule that are not present yet, so that it leaves the result as it is if and
  only if they are all present; and a registration that is repeated at once changes
  nothing.
\<close>

theorem result_duplicate_free:
  "(distinct detected \<longrightarrow> add_detected app pattern v detected = Inr d' \<longrightarrow> distinct d')
   \<and> (analyze w apps resp = Inr result \<longrightarrow> distinct result)
   \<and> (add_detected app pattern v detected = Inr d' \<longrightarrow> display_name app pattern v = Inr shown \<longrightarrow>
        shown \<in> set detected \<longrightarrow>
        (\<exists>new. d' = detected @ new \<and> set new = set (implies app) - set detected \<and> distinct new))
   \<and> (add_detected app pattern v detected = Inr d' \<longrightarrow> display_name app pattern v = Inr shown \<longrightarrow>
        shown \<in> set detected \<longrightarrow> (d' = detected) = (set (implies app) \<subseteq> set detected))
   \<and> (add_detected app pattern v detected = Inr d' \<longrightarrow> add_detected app pattern v d' = Inr d')"
proof (intro conjI impI)
  assume "distinct detected" "add_detected app pattern v detected = Inr d'"
  then show "distinct d'"
    by (rule add_detected_distinct)
next
  assume run: "analyze w apps resp = Inr result"
  have "distinct ([] :: string list)" by simp
  with run show "distinct result"
    by (rule analyze_inv [where P = distinct]) (rule add_detected_distinct)
next
  assume a: "add_detected app pattern v detected = Inr d'"
    and s: "display_name app pattern v = Inr shown" and m: "shown \<in> set detected"
  from a s m have "d' = add_implies (implies app) detected"
    by (rule add_detected_present)
  with add_implies_appends_missing [of "implies app" detected]
  show "\<exists>new. d' = detected @ new \<and> set new = set (implies app) - set detected \<and> distinct new"
    by simp
next
  assume a: "add_detected app pattern v detected = Inr d'"
    and s: "display_name app pattern v = Inr shown" and m: "shown \<in> set detected"
  from a s m have d: "d' = add_implies (implies app) detected"
    by (rule add_detected_present)
  obtain new where new: "add_implies (implies app) detected = detected @ new"
    "set new = set (implies app) - set detected"
    using add_implies_appends_missing [of "implies app" detected] by blast
  have "(d' = detected) = (new = [])"
    using d new(1) by simp
  also have "\<dots> = (set new = {})"
    by simp
  also have "\<dots> = (set (implies app) \<subseteq> set detected)"
    using new(2) by auto
  finally show "(d' = detected) = (set (implies app) \<subseteq> set detected)" .
next
  assume "add_detected app pattern v detected = Inr d'"
  then show "add_detected app pattern v d' = Inr d'"
    by (rule add_detected_idem)
qed

theorem result_duplicate_free_witness:
  "distinct [''A'', ''B'']
   \<and> add_detected chain_b (plain_pattern ''beta'' (seq (map Literal ''beta''))) ''alpha beta'' [''A'', ''B'']
        = Inr [''A'', ''B'', ''C'']
   \<and> distinct [''A'', ''B'', ''C'']
   \<and> analyze quiet_world [chain_a, chain_b, chain_c] (url_response ''alpha'') = Inr [''A'', ''B'']
   \<and> display_name chain_b (plain_pattern ''beta'' (seq (map Literal ''beta''))) ''alpha beta'' = Inr ''B''
   \<and> ''B'' \<in> set [''A'', ''B'']
   \<and> (\<exists>new. [''A'', ''B'', ''C''] = [''A'', ''B''] @ new
         \<and> set new = set (implies chain_b) - set [''A'', ''B''] \<and> distinct new)
   \<and> ([''A'', ''B'', ''C''] = [''A'', ''B'']) = (set (implies chain_b) \<subseteq> set [''A'', ''B''])
   \<and> add_detected chain_b (plain_pattern ''beta'' (seq (map Literal ''beta''))) ''alpha beta''
        [''A'', ''B'', ''C''] = Inr [''A'', ''B'', ''C'']
   \<and> ''B'' \<in> set [''A'', ''B'', ''C'']
   \<and> ([''A'', ''B'', ''C''] = [''A'', ''B'', ''C''])
       = (set (implies chain_b) \<subseteq> set [''A'', ''B'', ''C''])"
proof -
  note t = result_duplicate_free
             [where app = chain_b and pattern = "plain_pattern ''beta'' (seq (map Literal ''beta''))"
                and v = "''alpha beta''" and detected = "[''A'', ''B'']" and d' = "[''A'', ''B'', ''C'']"
                and w = quiet_world and apps = "[chain_a, chain_b, chain_c]"
                and resp = "url_response ''alpha''" and result = "[''A'', ''B'']"
                and shown = "''B''"]
  note u = result_duplicate_free
             [where app = chain_b and pattern = "plain_pattern ''beta'' (seq (map Literal ''beta''))"
                and v = "''alpha beta''" and detected = "[''A'', ''B'', ''C'']"
                and d' = "[''A'', ''B'', ''C'']" and shown = "''B''"]
  have s: "display_name chain_b (plain_pattern ''beta'' (seq (map Literal ''beta''))) ''alpha beta'' = Inr ''B''"
    by (simp add: display_plain chain_b_def)
  have m1: "''B'' \<in> set [''A'', ''B'']" and m2: "''B'' \<in> set [''A'', ''B'', ''C'']"
    by simp_all
  have d1: "distinct [''A'', ''B'']" by simp
  have d2: "distinct [''A'', ''B'', ''C'']"
    by (rule t [THEN conjunct1, rule_format, OF d1 add_detected_chain_b])
  have d3: "distinct [''A'', ''B'']"
    by (rule t [THEN conjunct2, THEN conjunct1, rule_format, OF pass_chain_alpha])
  have new: "\<exists>new. [''A'', ''B'', ''C''] = [''A'', ''B''] @ new
         \<and> set new = set (implies chain_b) - set [''A'', ''B''] \<and> distinct new"
    by (rule t [THEN conjunct2, THEN conjunct2, THEN conjunct1, rule_format,
                OF add_detected_chain_b s m1])
  have changed: "([''A'', ''B'', ''C''] = [''A'', ''B'']) = (set (implies chain_b) \<subseteq> set [''A'', ''B''])"
    by (rule t [THEN conjunct2, THEN conjunct2, THEN conjunct2, THEN conjunct1, rule_format,
                OF add_detected_chain_b s m1])
  have again: "add_detected chain_b (plain_pattern ''beta'' (seq (map Literal ''beta''))) ''alpha beta''
        [''A'', ''B'', ''C''] = Inr [''A'', ''B'', ''C'']"
    by (rule t [THEN conjunct2, THEN conjunct2, THEN conjunct2, THEN conjunct2, rule_format,
                OF add_detected_chain_b])
  have same: "([''A'', ''B'', ''C''] = [''A'', ''B'', ''C''])
       = (set (implies chain_b) \<subseteq> set [''A'', ''B'', ''C''])"
    by (rule u [THEN conjunct2, THEN conjunct2, THEN conjunct2, THEN conjunct1, rule_format,
                OF again s m2])
  from d1 add_detected_chain_b d2 pass_chain_alpha s m1 new changed again m2 same show ?thesis
    by (intro conjI)
qed

text \<open>
  Claim C8 as stated fails in its last part: registering a display name that is already
  present can change the result. \<open>B\<close> is in the result as a name implied by \<open>A\<close>; when the
  pattern of \<open>B\<close> matches as well, \<open>B\<close> is not added again, but \<open>C\<close>, which \<open>B\<close> implies, is.
\<close>

theorem present_name_still_adds_implied:
  "display_name chain_b (plain_pattern ''beta'' (seq (map Literal ''beta''))) ''alpha beta'' = Inr ''B''
   \<and> ''B'' \<in> set [''A'', ''B'']
   \<and> add_detected chain_b (plain_pattern ''beta'' (seq (map Literal ''beta''))) ''alpha beta'' [''A'', ''B'']
        = Inr [''A'', ''B'', ''C'']
   \<and> [''A'', ''B'', ''C''] \<noteq> [''A'', ''B'']
   \<and> analyze_url [chain_a, chain_b, chain_c] ''alpha'' [] = Inr [''A'', ''B'']
   \<and> analyze_url [chain_a, chain_b, chain_c] ''alpha beta'' [] = Inr [''A'', ''B'', ''C'']"
proof -
  have "display_name chain_b (plain_pattern ''beta'' (seq (map Literal ''beta''))) ''alpha beta'' = Inr ''B''"
    by (simp add: display_plain chain_b_def)
  with add_detected_chain_b url_chain_alpha url_chain_alpha_beta show ?thesis
    by simp
qed

subsection \<open>Registration for each matching pattern\<close>

lemma test_patterns_registers_all:
  "\<forall>p \<in> set ps. \<exists>r. p ''regex'' = Some (ARegex r) \<Longrightarrow>
   test_patterns app ps v detected
     = for_each (\<lambda>p. add_detected app p v) (filter (\<lambda>p. pattern_search p v = Inr True) ps) detected"
proof (induction ps arbitrary: detected)
  case Nil
  then show ?case by simp
next
  case (Cons p ps)
  from Cons.prems obtain r where r: "p ''regex'' = Some (ARegex r)"
    by auto
  from Cons.prems have rest: "\<forall>p \<in> set ps. \<exists>r. p ''regex'' = Some (ARegex r)"
    by simp
  show ?case
  proof (cases "re_search r v \<noteq> None")
    case True
    with r have hit: "pattern_search p v = Inr True"
      by (simp add: pattern_search_def)
    show ?thesis
    proof (cases "add_detected app p v detected")
      case (Inl e)
      with hit show ?thesis by simp
    next
      case (Inr d1)
      with hit Cons.IH [OF rest, of d1] show ?thesis by simp
    qed
  next
    case False
    with r have miss: "pattern_search p v = Inr False"
      by (simp add: pattern_search_def)
    with Cons.IH [OF rest, of detected] show ?thesis by simp
  qed
qed

lemma parse_two_patterns:
  "parse_patterns (JArray [JString (''a(b)'' @ version_attr), JString ''a''])
     = Inr (PList [ab_version_pattern, plain_pattern ''a'' (Literal CHR ''a'')])"
proof -
  have s1: "str_split (backslash # '';'') (''a(b)'' @ version_attr) = [''a(b)'', ''version:'' @ [backslash, CHR ''1'']]"
    by code_simp
  have c1: "compile_regex ''a(b)'' True
      = Inr \<lparr>re_flags = \<lparr>ignorecase = True, dotall = True\<rparr>,
             re_prog = Cat (Literal CHR ''a'') (Subpattern (Some 0) (Literal CHR ''b'')),
             re_groups = 1\<rparr>"
    by code_simp
  have p1: "parse_pattern (''a(b)'' @ version_attr) = Inr ab_version_pattern"
    by (simp only: parse_pattern_def s1 split_version c1 list.case sum.case
        parse_attrs.simps Let_def ab_version_pattern_def list.size str_join.simps list.sel)
       simp
  have s2: "str_split (backslash # '';'') ''a'' = [''a'']"
    by code_simp
  have c2: "compile_regex ''a'' True
      = Inr \<lparr>re_flags = \<lparr>ignorecase = True, dotall = True\<rparr>,
             re_prog = Literal CHR ''a'', re_groups = 0\<rparr>"
    by code_simp
  have p2: "parse_pattern ''a'' = Inr (plain_pattern ''a'' (Literal CHR ''a''))"
    by (simp add: parse_pattern_def s2 c2 plain_pattern_def)
  have "parse_pattern_list [JString (''a(b)'' @ version_attr), JString ''a'']
          = Inr [ab_version_pattern, plain_pattern ''a'' (Literal CHR ''a'')]"
    by (simp only: parse_pattern_list.simps p1 p2 sum.case)
  then show ?thesis
    by (simp only: parse_patterns_def truthy.simps pattern_items.simps as_list.simps
          parse_items.simps sum.case AList.update.simps)
       simp
qed

lemma search_ab_version: "pattern_search ab_version_pattern ''ab'' = Inr True"
  by code_simp

lemma search_ab_plain: "pattern_search (plain_pattern ''a'' (Literal CHR ''a'')) ''ab'' = Inr True"
  by code_simp

lemma url_two_patterns: "analyze_url [two_patterns] ''ab'' [] = Inr [''X (b)'', ''X'']"
  by code_simp

lemma register_version: "add_detected two_patterns ab_version_pattern ''ab'' [] = Inr [''X (b)'']"
  by code_simp

lemma register_plain:
  "add_detected two_patterns (plain_pattern ''a'' (Literal CHR ''a'')) ''ab'' [''X (b)''] = Inr [''X (b)'', ''X'']"
  by code_simp

text \<open>
  Claim C6, as amended. For a rule and a candidate, the inner loop of every analysis
  registers once for each pattern of the rule whose matcher finds something in the
  candidate, in the order of the patterns, and not only for the first (there is no
  \<open>break\<close>). Registrations under one display name collapse into one entry, since
  registration suppresses duplicates; patterns that give different display names each
  add an entry.
\<close>

theorem every_matching_pattern_registers:
  "(\<forall>p \<in> set ps. \<exists>r. p ''regex'' = Some (ARegex r)) \<longrightarrow>
   test_patterns app ps v detected
     = for_each (\<lambda>p. add_detected app p v) (filter (\<lambda>p. pattern_search p v = Inr True) ps) detected"
  using test_patterns_registers_all by blast

theorem every_matching_pattern_registers_witness:
  "ab_version_pattern ''regex''
     = Some (ARegex \<lparr>re_flags = \<lparr>ignorecase = True, dotall = True\<rparr>,
                       re_prog = Cat (Literal CHR ''a'') (Subpattern (Some 0) (Literal CHR ''b'')),
                       re_groups = 1\<rparr>)
   \<and> plain_pattern ''a'' (Literal CHR ''a'') ''regex''
     = Some (ARegex \<lparr>re_flags = \<lparr>ignorecase = True, dotall = True\<rparr>,
                       re_prog = Literal CHR ''a'', re_groups = 0\<rparr>)
   \<and> filter (\<lambda>p. pattern_search p ''ab'' = Inr True)
         [ab_version_pattern, plain_pattern ''a'' (Literal CHR ''a'')]
       = [ab_version_pattern, plain_pattern ''a'' (Literal CHR ''a'')]
   \<and> test_patterns two_patterns [ab_version_pattern, plain_pattern ''a'' (Literal CHR ''a'')] ''ab'' []
       = Inr [''X (b)'', ''X'']"
proof -
  have r1: "ab_version_pattern ''regex''
     = Some (ARegex \<lparr>re_flags = \<lparr>ignorecase = True, dotall = True\<rparr>,
                       re_prog = Cat (Literal CHR ''a'') (Subpattern (Some 0) (Literal CHR ''b'')),
                       re_groups = 1\<rparr>)"
    by (simp add: ab_version_pattern_def)
  have r2: "plain_pattern ''a'' (Literal CHR ''a'') ''regex''
     = Some (ARegex \<lparr>re_flags = \<lparr>ignorecase = True, dotall = True\<rparr>,
                       re_prog = Literal CHR ''a'', re_groups = 0\<rparr>)"
    by (simp add: plain_pattern_def)
  have h: "\<forall>p \<in> set [ab_version_pattern, plain_pattern ''a'' (Literal CHR ''a'')].
        \<exists>r. p ''regex'' = Some (ARegex r)"
    using r1 r2 by simp
  have f: "filter (\<lambda>p. pattern_search p ''ab'' = Inr True)
         [ab_version_pattern, plain_pattern ''a'' (Literal CHR ''a'')]
       = [ab_version_pattern, plain_pattern ''a'' (Literal CHR ''a'')]"
    by (simp add: search_ab_version search_ab_plain)
  note t = every_matching_pattern_registers
             [where ps = "[ab_version_pattern, plain_pattern ''a'' (Literal CHR ''a'')]"
                and app = two_patterns and v = "''ab''" and detected = "[]", THEN mp, OF h]
  have "test_patterns two_patterns [ab_version_pattern, plain_pattern ''a'' (Literal CHR ''a'')] ''ab'' []
       = Inr [''X (b)'', ''X'']"
    unfolding t f by (simp add: register_version register_plain)
  with r1 r2 f show ?thesis
    by (intro conjI)
qed

text \<open>
  Claim C6 as stated fails: a rule with two patterns that both match the candidate \<open>ab\<close>,
  the first with a version and the second without, is registered twice for that one
  candidate, under two display names.
\<close>

theorem two_detections_for_one_candidate:
  "map_of (props two_patterns) ''url'' = Some (JArray [JString (''a(b)'' @ version_attr), JString ''a''])
   \<and> parse_patterns (JArray [JString (''a(b)'' @ version_attr), JString ''a''])
       = Inr (PList [ab_version_pattern, plain_pattern ''a'' (Literal CHR ''a'')])
   \<and> pattern_search ab_version_pattern ''ab'' = Inr True
   \<and> pattern_search (plain_pattern ''a'' (Literal CHR ''a'')) ''ab'' = Inr True
   \<and> analyze_url [two_patterns] ''ab'' [] = Inr [''X (b)'', ''X'']"
proof -
  have "map_of (props two_patterns) ''url'' = Some (JArray [JString (''a(b)'' @ version_attr), JString ''a''])"
    by (simp add: two_patterns_def)
  with parse_two_patterns search_ab_version search_ab_plain url_two_patterns show ?thesis
    by (intro conjI)
qed

section \<open>Properties of a pass when something raises\<close>

lemma for_each_append:
  "for_each body (xs @ ys) s = bind_err (for_each body xs s) (for_each body ys)"
  by (induction xs arbitrary: s) (auto simp: bind_err_def split: sum.splits)

lemma for_each_fails:
  "x \<in> set xs \<Longrightarrow> (\<And>s. \<exists>e. body x s = Inl e) \<Longrightarrow> \<exists>e. for_each body xs s = Inl e"
proof (induction xs arbitrary: s)
  case Nil
  then show ?case by simp
next
  case (Cons y ys)
  show ?case
  proof (cases "body y s")
    case (Inl e)
    then show ?thesis by simp
  next
    case (Inr s1)
    have "x \<noteq> y"
    proof
      assume "x = y"
      with Cons.prems(2) [of s] Inr show False by simp
    qed
    with Cons.prems(1) have "x \<in> set ys" by simp
    from Cons.IH [OF this Cons.prems(2)] obtain e where "for_each body ys s1 = Inl e"
      by blast
    with Inr show ?thesis by simp
  qed
qed

lemma js_script_fetch_fails: "fetch w script = Inl e \<Longrightarrow> js_script w apps script d = Inl e"
  by (simp add: js_script_def)

lemma analyze_js_fetch_fails:
  assumes "script \<in> set scripts" and "fetch w script = Inl e"
  shows "\<exists>e'. analyze_js w apps scripts d = Inl e'"
  unfolding analyze_js_def
proof (rule for_each_fails [OF assms(1)])
  fix s
  show "\<exists>e. js_script w apps script s = Inl e"
    using assms(2) by (simp add: js_script_fetch_fails)
qed

text \<open>
  Claim C1, as amended. Nothing in a pass catches what the HTTP client raises. When the
  fetch of a script body raises, and the scripts before it were analysed without an
  exception, \<open>analyze_js\<close> ends with that exception: the scripts after it are neither
  fetched nor analysed. And when the document is markup and the fetch of one of its
  scripts raises, the pass ends with an exception and returns no result: the meta, url,
  header and cookie signals that come after are not analysed.
\<close>

theorem fetch_failure_aborts_pass:
  "(analyze_js w apps before detected = Inr d1 \<longrightarrow> fetch w script = Inl e \<longrightarrow>
      analyze_js w apps (before @ script # after) detected = Inl e)
   \<and> (is_html_document (soup resp) \<longrightarrow>
        script \<in> set (get_absolute_url w (request_url resp) (get_scripts (soup resp))) \<longrightarrow>
        fetch w script = Inl e \<longrightarrow>
        (\<exists>e'. analyze w apps resp = Inl e'))"
proof (intro conjI impI)
  assume "analyze_js w apps before detected = Inr d1" "fetch w script = Inl e"
  then show "analyze_js w apps (before @ script # after) detected = Inl e"
    by (simp add: analyze_js_def for_each_append bind_err_def js_script_fetch_fails)
next
  assume h: "is_html_document (soup resp)"
    and m: "script \<in> set (get_absolute_url w (request_url resp) (get_scripts (soup resp)))"
    and f: "fetch w script = Inl e"
  have js: "\<exists>e'. analyze_js w apps (get_absolute_url w (request_url resp) (get_scripts (soup resp))) d = Inl e'"
    for d
    using m f by (rule analyze_js_fetch_fails)
  have "\<exists>e'. analyze_markup w apps resp [] = Inl e'"
  proof (cases "analyze_html apps (text_body resp) []")
    case (Inl e1)
    then show ?thesis by (simp add: analyze_markup_def bind_err_def)
  next
    case d1: (Inr d1)
    show ?thesis
    proof (cases "analyze_scripts apps (get_scripts (soup resp)) d1")
      case (Inl e2)
      with d1 show ?thesis by (simp add: analyze_markup_def bind_err_def)
    next
      case d2: (Inr d2)
      from js [of d2] obtain e3 where
        "analyze_js w apps (get_absolute_url w (request_url resp) (get_scripts (soup resp))) d2 = Inl e3"
        by blast
      with d1 d2 show ?thesis by (simp add: analyze_markup_def bind_err_def)
    qed
  qed
  then obtain e' where "analyze_markup w apps resp [] = Inl e'"
    by blast
  with h have "analyze w apps resp = Inl e'"
    by (simp add: analyze_def bind_err_def)
  then show "\<exists>e'. analyze w apps resp = Inl e'"
    by blast
qed

lemma two_scripts_urls:
  "get_absolute_url flaky_world (request_url two_scripts_page) (get_scripts (soup two_scripts_page))
     = [''http://x/a.js'', ''http://x/b.js'']"
  by code_simp

lemma flaky_pass: "analyze flaky_world [chain_a] two_scripts_page = Inl FetchError"
  by code_simp

lemma quiet_pass: "analyze quiet_world [chain_a] two_scripts_page = Inr [''A'', ''B'']"
  by code_simp

theorem fetch_failure_aborts_pass_witness:
  "analyze_js flaky_world [chain_a] [] [] = Inr []
   \<and> fetch flaky_world ''http://x/a.js'' = Inl FetchError
   \<and> analyze_js flaky_world [chain_a] ([] @ ''http://x/a.js'' # [''http://x/b.js'']) [] = Inl FetchError
   \<and> is_html_document (soup two_scripts_page)
   \<and> ''http://x/a.js'' \<in> set (get_absolute_url flaky_world (request_url two_scripts_page)
                                   (get_scripts (soup two_scripts_page)))
   \<and> analyze flaky_world [chain_a] two_scripts_page = Inl FetchError"
proof -
  have a: "analyze_js flaky_world [chain_a] [] [] = Inr []"
    by (simp add: analyze_js_def)
  have f: "fetch flaky_world ''http://x/a.js'' = Inl FetchError"
    by (simp add: flaky_world_def)
  have h: "is_html_document (soup two_scripts_page)"
    by (simp add: is_html_document_def two_scripts_page_def)
  have m: "''http://x/a.js'' \<in> set (get_absolute_url flaky_world (request_url two_scripts_page)
                                   (get_scripts (soup two_scripts_page)))"
    by (simp add: two_scripts_urls)
  note t = fetch_failure_aborts_pass
             [where w = flaky_world and apps = "[chain_a]" and before = "[]" and detected = "[]"
                and ?d1.0 = "[]" and script = "''http://x/a.js''" and e = FetchError
                and after = "[''http://x/b.js'']" and resp = two_scripts_page]
  have j: "analyze_js flaky_world [chain_a] ([] @ ''http://x/a.js'' # [''http://x/b.js'']) [] = Inl FetchError"
    using t [THEN conjunct1] a f by blast
  have "\<exists>e'. analyze flaky_world [chain_a] two_scripts_page = Inl e'"
    using t [THEN conjunct2] h m f by blast
  with flaky_pass have p: "analyze flaky_world [chain_a] two_scripts_page = Inl FetchError"
    by simp
  from a f j h m p show ?thesis
    by (intro conjI)
qed

text \<open>
  Claim C1 as stated fails: on a page with the scripts \<open>a.js\<close> and \<open>b.js\<close>, where the fetch
  of \<open>a.js\<close> raises and that of \<open>b.js\<close> succeeds, the pass ends with the exception, although
  the URL alone makes the pass detect \<open>A\<close> and \<open>B\<close> when both fetches succeed.
\<close>

theorem fetch_failure_propagates:
  "get_absolute_url flaky_world (request_url two_scripts_page) (get_scripts (soup two_scripts_page))
     = [''http://x/a.js'', ''http://x/b.js'']
   \<and> fetch flaky_world ''http://x/a.js'' = Inl FetchError
   \<and> fetch flaky_world ''http://x/b.js'' = Inr []
   \<and> analyze flaky_world [chain_a] two_scripts_page = Inl FetchError
   \<and> analyze quiet_world [chain_a] two_scripts_page = Inr [''A'', ''B'']"
proof -
  have "fetch flaky_world ''http://x/a.js'' = Inl FetchError"
    and "fetch flaky_world ''http://x/b.js'' = Inr []"
    by (simp_all add: flaky_world_def)
  with two_scripts_urls flaky_pass quiet_pass show ?thesis
    by (intro conjI)
qed

section \<open>Properties of the signal analyses\<close>

lemma guard_text:
  "global_guard ''jQuery.fn.jquery'' = ''(window|document)'' @ [backslash] @ ''.jQuery.fn.jquery *?=''"
  by (simp add: global_guard_def)

lemma guard_passes_wildcard:
  "analyze_js (body_world ''window.jQuery_fn_jquery=1'') [jquery] [''s.js''] []
     = Inr [''jQuery (window.jQuery_fn_jquery=1)'']"
  by code_simp

lemma guard_blocks_plain_text:
  "analyze_js (body_world ''jQuery.fn.jquery'') [jquery] [''s.js''] [] = Inr []"
  by code_simp

lemma guard_passes_assignment:
  "analyze_js (body_world ''window.jQuery.fn.jquery = 3'') [jquery] [''s.js''] []
     = Inr [''jQuery (window.jQuery.fn.jquery = 3)'']"
  by code_simp

text \<open>
  Claim C4, on the code. The guard is the sub-key spliced into a regex without escaping,
  so the dots of \<open>jQuery.fn.jquery\<close> stand for any character. A body that assigns to
  \<open>window.jQuery_fn_jquery\<close>, and to nothing else, passes the guard of the rule keyed on
  \<open>jQuery.fn.jquery\<close>, and the rule is registered. A body that holds the path as plain
  text only does not pass, and a body with the assignment does.
\<close>

theorem js_guard_treats_dots_as_wildcards:
  "global_guard ''jQuery.fn.jquery'' = ''(window|document)'' @ [backslash] @ ''.jQuery.fn.jquery *?=''
   \<and> analyze_js (body_world ''window.jQuery_fn_jquery=1'') [jquery] [''s.js''] []
       = Inr [''jQuery (window.jQuery_fn_jquery=1)'']
   \<and> analyze_js (body_world ''jQuery.fn.jquery'') [jquery] [''s.js''] [] = Inr []
   \<and> analyze_js (body_world ''window.jQuery.fn.jquery = 3'') [jquery] [''s.js''] []
       = Inr [''jQuery (window.jQuery.fn.jquery = 3)'']"
  using guard_text guard_passes_wildcard guard_blocks_plain_text guard_passes_assignment
  by (intro conjI)

lemma meta_no_content: "analyze_meta [generator_rule] [[(''name'', ''generator'')]] [] = Inl TypeError"
  by code_simp

lemma meta_no_content_pass:
  "analyze quiet_world [generator_rule, chain_a] (meta_page [(''name'', ''generator'')]) = Inl TypeError"
  by code_simp

lemma meta_with_content_pass:
  "analyze quiet_world [generator_rule, chain_a]
     (meta_page [(''name'', ''generator''), (''content'', ''WordPress 5.9'')]) = Inr [''WordPress'', ''A'', ''B'']"
  by code_simp

lemma meta_empty_content_pass:
  "analyze quiet_world [generator_rule, chain_a]
     (meta_page [(''name'', ''generator''), (''content'', [])]) = Inr [''A'', ''B'']"
  by code_simp

lemma meta_no_name_pass:
  "analyze quiet_world [generator_rule, chain_a] (meta_page [(''content'', ''WordPress 5.9'')])
     = Inr [''A'', ''B'']"
  by code_simp

text \<open>
  Claim C5, on the code. A meta element whose name is the sub-key of a rule and that has no
  \<open>content\<close> attribute makes \<open>analyze_meta\<close> raise \<open>TypeError\<close>, and the pass with it: the
  URL signal, which would detect \<open>A\<close> and \<open>B\<close>, is never analysed. With an empty content, with
  a content, or without a name the same pass returns a result.
\<close>

theorem meta_without_content_raises:
  "analyze_meta [generator_rule] [[(''name'', ''generator'')]] [] = Inl TypeError
   \<and> analyze quiet_world [generator_rule, chain_a] (meta_page [(''name'', ''generator'')]) = Inl TypeError
   \<and> analyze quiet_world [generator_rule, chain_a]
         (meta_page [(''name'', ''generator''), (''content'', [])]) = Inr [''A'', ''B'']
   \<and> analyze quiet_world [generator_rule, chain_a]
         (meta_page [(''name'', ''generator''), (''content'', ''WordPress 5.9'')])
       = Inr [''WordPress'', ''A'', ''B'']
   \<and> analyze quiet_world [generator_rule, chain_a] (meta_page [(''content'', ''WordPress 5.9'')])
       = Inr [''A'', ''B'']"
  using meta_no_content meta_no_content_pass meta_empty_content_pass meta_with_content_pass
    meta_no_name_pass
  by (intro conjI)

end
